theory Spec2Isabelle
  imports Main "HOL-Library.Multiset" "HOL-Library.Sublist"
    "HOL-Library.Char_ord" "HOL-Library.List_Lexorder"
begin

section \<open>Strings\<close>

text \<open>
  Python and JavaScript strings are modelled as \<^typ>\<open>string\<close>: one \<^typ>\<open>char\<close> per
  character of the source string. Only characters with a code below 256 can be written,
  which restricts the inputs that can be fed to the model, not what the functions do with
  them: the source functions below single out the characters \<open>/\<close>, \<open>+\<close>, \<open>-\<close>, \<open>0\<close>-\<open>9\<close>,
  \<open>:\<close>, \<open>_\<close>, the ASCII letters and white space only.
\<close>

datatype error =
    ValueError_unpack nat    \<comment> \<open>tuple unpacking of a list of the given length into three names\<close>
  | ValueError_must_login    \<comment> \<open>\<open>ValueError("Must login first")\<close>\<close>
  | IndexError
  | PageError                \<comment> \<open>any exception raised by a browser call\<close>
  | HTTPException nat        \<comment> \<open>\<open>HTTPException(status_code=...)\<close>\<close>
  | ValidationError          \<comment> \<open>the \<open>ValueError\<close> of a field validator, as pydantic reports it\<close>
  | ConfigError              \<comment> \<open>any exception raised by \<open>self.config.validate()\<close>\<close>

text \<open>\<open>str.split(sep)\<close> for a one-character separator: the pieces between the separators,
  empty pieces included, so that a string with \<open>n\<close> separators gives \<open>n + 1\<close> pieces.\<close>

fun str_split :: "char \<Rightarrow> string \<Rightarrow> string list" where
  "str_split sep [] = [[]]"
| "str_split sep (c # cs) =
     (if c = sep then [] # str_split sep cs
      else (case str_split sep cs of
              [] \<Rightarrow> [[c]]
            | p # ps \<Rightarrow> (c # p) # ps))"

text \<open>\<open>str.zfill(width)\<close>: the string itself when it is long enough, else zeros on the
  left, after a leading sign \<open>+\<close> or \<open>-\<close> if there is one.\<close>

definition zfill :: "nat \<Rightarrow> string \<Rightarrow> string" where
  "zfill width s =
     (if width \<le> length s then s
      else (case s of
              [] \<Rightarrow> replicate width CHR ''0''
            | c # cs \<Rightarrow>
                if c = CHR ''+'' \<or> c = CHR ''-''
                then c # replicate (width - length s) CHR ''0'' @ cs
                else replicate (width - length s) CHR ''0'' @ s))"

text \<open>Substring test: JavaScript's \<open>hay.includes(needle)\<close>, Python's \<open>needle in hay\<close>.\<close>

fun contains :: "string \<Rightarrow> string \<Rightarrow> bool" where
  "contains [] needle = (needle = [])"
| "contains (c # cs) needle = (prefix needle (c # cs) \<or> contains cs needle)"

text \<open>Lower case (\<open>toLowerCase\<close>, \<open>str.lower\<close>) on the characters below 256: the ASCII
  capitals and the accented capitals 192 to 222 (215, the multiplication sign, apart) move
  up by 32.\<close>

definition lower_char :: "char \<Rightarrow> char" where
  "lower_char c =
     (let n = (of_char c :: nat)
      in if (65 \<le> n \<and> n \<le> 90) \<or> (192 \<le> n \<and> n \<le> 222 \<and> n \<noteq> 215)
         then char_of (n + 32) else c)"

definition toLowerCase :: "string \<Rightarrow> string" where
  "toLowerCase s = map lower_char s"

text \<open>White space removed by JavaScript's \<open>trim\<close>, and white space on which Python's
  \<open>str.split()\<close> without argument splits, among the characters below 256.\<close>

definition js_space :: "char \<Rightarrow> bool" where
  "js_space c = ((of_char c :: nat) \<in> set [9, 10, 11, 12, 13, 32, 160])"

definition py_space :: "char \<Rightarrow> bool" where
  "py_space c = ((of_char c :: nat) \<in> set [9, 10, 11, 12, 13, 28, 29, 30, 31, 32, 133, 160])"

definition trim :: "string \<Rightarrow> string" where
  "trim s = rev (dropWhile js_space (rev (dropWhile js_space s)))"

text \<open>\<open>str.split()\<close>: the maximal runs of characters that are not white space.\<close>

fun split_ws :: "string \<Rightarrow> string \<Rightarrow> string list" where
  "split_ws word [] = (if word = [] then [] else [word])"
| "split_ws word (c # cs) =
     (if py_space c then (if word = [] then split_ws [] cs else word # split_ws [] cs)
      else split_ws (word @ [c]) cs)"

definition is_digit :: "char \<Rightarrow> bool" where
  "is_digit c = (c \<in> set ''0123456789'')"

definition digit_val :: "char \<Rightarrow> nat" where
  "digit_val c = of_char c - 48"

definition digit_char :: "nat \<Rightarrow> char" where
  "digit_char n = char_of (48 + n)"

text \<open>\<open>parseInt\<close> on a string of decimal digits.\<close>

definition parseInt :: "string \<Rightarrow> nat" where
  "parseInt s = foldl (\<lambda>n c. 10 * n + digit_val c) 0 s"

text \<open>The decimal text of a number, as a template literal prints it.\<close>

fun show_nat :: "nat \<Rightarrow> string" where
  "show_nat n = (if n < 10 then [digit_char n] else show_nat (n div 10) @ [digit_char (n mod 10)])"

declare show_nat.simps [simp del]

text \<open>\<open>s.padStart(width, '0')\<close>.\<close>

definition padStart :: "nat \<Rightarrow> string \<Rightarrow> string" where
  "padStart width s = replicate (width - length s) CHR ''0'' @ s"

definition quote :: string where
  "quote = [CHR 0x22]"

section \<open>recommender.py\<close>

text \<open>
  \<^verbatim>\<open>
  def parse_slot_date(fecha_disponible: str) -> str:
      day, month, year = fecha_disponible.split("/")
      return f"{year}-{month.zfill(2)}-{day.zfill(2)}"
  \<close>
  The unpacking raises ValueError unless the split has exactly three pieces.
\<close>

definition parse_slot_date :: "string \<Rightarrow> error + string" where
  "parse_slot_date fecha_disponible =
     (case str_split CHR ''/'' fecha_disponible of
        [day, month, year] \<Rightarrow> Inr (year @ ''-'' @ zfill 2 month @ ''-'' @ zfill 2 day)
      | parts \<Rightarrow> Inl (ValueError_unpack (length parts)))"

text \<open>The raw slot dictionary built by the extraction script, with its five keys.\<close>

record slot =
  nombreOficina :: string
  direccionOficina :: string
  fechaDisponible :: string
  horaDisponible :: string
  idOficina :: string

text \<open>
  \<^verbatim>\<open>
  def format_slot_datetime(slot: dict) -> str:
      iso_date = parse_slot_date(slot["fechaDisponible"])
      time_str = slot["horaDisponible"]
      return f"{iso_date} {time_str}"
  \<close>
\<close>

definition format_slot_datetime :: "slot \<Rightarrow> error + string" where
  "format_slot_datetime s =
     (case parse_slot_date (fechaDisponible s) of
        Inl e \<Rightarrow> Inl e
      | Inr iso_date \<Rightarrow> Inr (iso_date @ '' '' @ horaDisponible s))"

text \<open>
  \<^verbatim>\<open>
  def format_slot_datetime_iso(slot: dict) -> str:
      iso_date = parse_slot_date(slot["fechaDisponible"])
      time_str = slot["horaDisponible"]
      return f"{iso_date}T{time_str}:00"
  \<close>
\<close>

definition format_slot_datetime_iso :: "slot \<Rightarrow> error + string" where
  "format_slot_datetime_iso s =
     (case parse_slot_date (fechaDisponible s) of
        Inl e \<Rightarrow> Inl e
      | Inr iso_date \<Rightarrow> Inr (iso_date @ ''T'' @ horaDisponible s @ '':00''))"

text \<open>The keys of a batch, computed from left to right as \<open>sorted\<close> does before it
  compares anything; the first key that raises ends the computation.\<close>

fun sort_keys :: "slot list \<Rightarrow> error + string list" where
  "sort_keys [] = Inr []"
| "sort_keys (s # ss) =
     (case format_slot_datetime s of
        Inl e \<Rightarrow> Inl e
      | Inr k \<Rightarrow> (case sort_keys ss of Inl e \<Rightarrow> Inl e | Inr ks \<Rightarrow> Inr (k # ks)))"

text \<open>
  \<^verbatim>\<open>
  def sort_slots_by_datetime(slots: list[dict]) -> list[dict]:
      return sorted(slots, key=format_slot_datetime)
  \<close>
  \<open>sorted\<close> is Python's builtin: it decorates every element with its key, sorts the
  pairs stably by key (strings compare character by character, a proper prefix first) and
  returns the elements. The stable sort is \<^const>\<open>sort_key\<close>.
\<close>

definition sort_slots_by_datetime :: "slot list \<Rightarrow> error + slot list" where
  "sort_slots_by_datetime slots =
     (case sort_keys slots of
        Inl e \<Rightarrow> Inl e
      | Inr ks \<Rightarrow> Inr (map snd (sort_key fst (zip ks slots))))"

section \<open>client.py: the browser\<close>

text \<open>
  The browser is outside the program. Every call the client makes on it is an
  \<open>action\<close>; the client's state records the actions attempted so far, in order, and the
  browser is a collection of oracles that answer from that history: whether the call
  raises, and what it returns when it does not. Sleeps and log messages are left out.
\<close>

datatype action =
    StartBrowser                  \<comment> \<open>\<open>start_browser\<close>: engine, browser, context, page, init script\<close>
  | Close                         \<comment> \<open>\<open>close\<close>: page, context, browser, engine\<close>
  | Goto string                   \<comment> \<open>\<open>page.goto(url, wait_until="networkidle")\<close>\<close>
  | Title                         \<comment> \<open>\<open>page.title()\<close>\<close>
  | WaitForSelector string        \<comment> \<open>\<open>page.wait_for_selector(sel, timeout=10000)\<close>\<close>
  | Fill string string            \<comment> \<open>\<open>page.fill(sel, value)\<close>\<close>
  | Click string                  \<comment> \<open>\<open>page.click(sel)\<close>\<close>
  | WaitForLoadState              \<comment> \<open>\<open>page.wait_for_load_state("networkidle")\<close>\<close>
  | QuerySelectorAll string       \<comment> \<open>\<open>page.query_selector_all(sel)\<close>\<close>
  | InnerText nat                 \<comment> \<open>\<open>btn.inner_text()\<close> on the element of that index\<close>
  | ClickElement nat              \<comment> \<open>\<open>btn.click()\<close> on the element of that index\<close>
  | QuerySelector string          \<comment> \<open>\<open>page.query_selector(sel)\<close>\<close>
  | SelectOption string string    \<comment> \<open>\<open>page.select_option(sel, value)\<close>\<close>
  | Evaluate                      \<comment> \<open>\<open>page.evaluate(script)\<close> with the extraction script\<close>

record browser =
  raises :: "action list \<Rightarrow> action \<Rightarrow> bool"
  title_text :: "action list \<Rightarrow> string"
  page_url :: "action list \<Rightarrow> string"
  element_count :: "action list \<Rightarrow> string \<Rightarrow> nat"
  inner_text :: "action list \<Rightarrow> nat \<Rightarrow> string"
  element_present :: "action list \<Rightarrow> string \<Rightarrow> bool"
  card_texts :: "action list \<Rightarrow> string list"
  full_year :: "action list \<Rightarrow> nat"

text \<open>The fields of \<open>SRCEIPlaywrightClient\<close>: the credentials of its config, whether
  \<open>self.page\<close> is set, \<open>self.is_authenticated\<close>, and the history of browser calls.\<close>

record client =
  rut :: string
  password :: string
  page_open :: bool
  is_authenticated :: bool
  log :: "action list"

text \<open>One call on \<open>self.page\<close>: it is attempted, and recorded, when the page exists; the
  result says whether it came back without an exception. With \<open>self.page\<close> unset the
  attribute access raises before anything reaches the browser.\<close>

definition page_call :: "browser \<Rightarrow> action \<Rightarrow> client \<Rightarrow> bool \<times> client" where
  "page_call b a c =
     (if page_open c then (\<not> raises b (log c) a, c\<lparr>log := log c @ [a]\<rparr>)
      else (False, c))"

text \<open>Calls in sequence, up to the first that raises.\<close>

fun page_calls :: "browser \<Rightarrow> action list \<Rightarrow> client \<Rightarrow> bool \<times> client" where
  "page_calls b [] c = (True, c)"
| "page_calls b (a # as) c =
     (case page_call b a c of
        (True, c') \<Rightarrow> page_calls b as c'
      | (False, c') \<Rightarrow> (False, c'))"

definition start_browser :: "browser \<Rightarrow> client \<Rightarrow> (error + unit) \<times> client" where
  "start_browser b c =
     (if raises b (log c) StartBrowser then (Inl PageError, c\<lparr>log := log c @ [StartBrowser]\<rparr>)
      else (Inr (), c\<lparr>page_open := True, log := log c @ [StartBrowser]\<rparr>))"

definition close :: "browser \<Rightarrow> client \<Rightarrow> (error + unit) \<times> client" where
  "close b c =
     (if page_open c
      then (if raises b (log c) Close then Inl PageError else Inr (), c\<lparr>log := log c @ [Close]\<rparr>)
      else (Inr (), c))"

section \<open>client.py: login\<close>

definition BASE_URL :: string where
  "BASE_URL = ''https://solicitudeswebrc.srcei.cl/ReservaDeHoraSRCEI''"

definition run_input :: string where
  "run_input = ''input[name='' @ quote @ ''run'' @ quote @ '']''"

definition pass_input :: string where
  "pass_input = ''input[name='' @ quote @ ''pass'' @ quote @ '']''"

definition submit_button :: string where
  "submit_button = ''button[type='' @ quote @ ''submit'' @ quote @ ''], input[type='' @ quote
     @ ''submit'' @ quote @ ''], .btn-primary''"

text \<open>
  \<^verbatim>\<open>
  async def login(self) -> bool:
      if not self.page:
          await self.start_browser()
      try:
          await self.page.goto(f"{self.BASE_URL}/web/init.srcei", wait_until="networkidle")
          title = await self.page.title()
          if "Request Rejected" in title:
              logger.error("WAF blocked access")
              return False
          await self.page.wait_for_selector('input[name="run"]', timeout=10000)
          await self.page.fill('input[name="run"]', self.config.rut)
          await self.page.fill('input[name="pass"]', self.config.password)
          await self.page.click('button[type="submit"], input[type="submit"], .btn-primary')
          await self.page.wait_for_load_state("networkidle")
          current_url = self.page.url
          title = await self.page.title()
          if "seleccion" in current_url.lower() or "Reserva de Hora" in title:
              self.is_authenticated = True
              return True
          else:
              return False
      except Exception as e:
          return False
  \<close>
\<close>

definition login_form :: "browser \<Rightarrow> client \<Rightarrow> bool \<times> client" where
  "login_form b c =
     (case page_calls b [Goto (BASE_URL @ ''/web/init.srcei''), Title] c of
        (False, c1) \<Rightarrow> (False, c1)
      | (True, c1) \<Rightarrow>
          if contains (title_text b (butlast (log c1))) ''Request Rejected'' then (False, c1)
          else
            (case page_calls b
                    [WaitForSelector run_input, Fill run_input (rut c1),
                     Fill pass_input (password c1), Click submit_button, WaitForLoadState] c1 of
               (False, c2) \<Rightarrow> (False, c2)
             | (True, c2) \<Rightarrow>
                 (case page_call b Title c2 of
                    (False, c3) \<Rightarrow> (False, c3)
                  | (True, c3) \<Rightarrow>
                      if contains (toLowerCase (page_url b (log c2))) ''seleccion''
                         \<or> contains (title_text b (log c2)) ''Reserva de Hora''
                      then (True, c3\<lparr>is_authenticated := True\<rparr>)
                      else (False, c3))))"

definition login :: "browser \<Rightarrow> client \<Rightarrow> (error + bool) \<times> client" where
  "login b c =
     (case (if page_open c then (Inr (), c) else start_browser b c) of
        (Inl e, c0) \<Rightarrow> (Inl e, c0)
      | (Inr _, c0) \<Rightarrow> (case login_form b c0 of (r, c1) \<Rightarrow> (Inr r, c1)))"

section \<open>client.py: procedure and region selection\<close>

definition procedure_map :: "(string \<times> string) list" where
  "procedure_map =
     [(''6'', ''Renovaci'' @ [CHR 0xF3] @ ''n Chileno/a''),
      (''9'', ''Reimpresi'' @ [CHR 0xF3] @ ''n c'' @ [CHR 0xE9] @ ''dula''),
      (''10'', ''Renovaci'' @ [CHR 0xF3] @ ''n Extranjero/a''),
      (''11'', ''Solicitud de Pasaporte''),
      (''12'', ''Menores de Edad''),
      (''13'', ''Apostilla''),
      (''14'', ''Rectificaciones''),
      (''15'', ''Veh'' @ [CHR 0xED] @ ''culos'')]"

text \<open>\<open>procedure_map.get(procedure_id, procedure_id)\<close>\<close>

definition procedure_name :: "string \<Rightarrow> string" where
  "procedure_name procedure_id =
     (case map_of procedure_map procedure_id of Some n \<Rightarrow> n | None \<Rightarrow> procedure_id)"

definition procedure_selectors :: "string \<Rightarrow> string list" where
  "procedure_selectors name =
     [''button:has-text('' @ quote @ name @ quote @ '')'',
      ''text='' @ quote @ name @ quote,
      ''button:text-is('' @ quote @ name @ quote @ '')'']"

text \<open>
  \<^verbatim>\<open>
  for selector in selectors:
      try:
          await self.page.click(selector, timeout=3000)
          clicked = True
          break
      except Exception:
          continue
  \<close>
\<close>

fun click_first :: "browser \<Rightarrow> string list \<Rightarrow> client \<Rightarrow> bool \<times> client" where
  "click_first b [] c = (False, c)"
| "click_first b (selector # selectors) c =
     (case page_call b (Click selector) c of
        (True, c') \<Rightarrow> (True, c')
      | (False, c') \<Rightarrow> click_first b selectors c')"

text \<open>
  \<^verbatim>\<open>
  for btn in buttons:
      text = await btn.inner_text()
      if procedure_name.split()[0] in text:
          await btn.click()
          clicked = True
          break
  \<close>
  Nothing catches an exception inside this loop: it leaves the loop.
\<close>

fun click_button :: "browser \<Rightarrow> string \<Rightarrow> nat list \<Rightarrow> client \<Rightarrow> (error + bool) \<times> client" where
  "click_button b name [] c = (Inr False, c)"
| "click_button b name (btn # buttons) c =
     (case page_call b (InnerText btn) c of
        (False, c1) \<Rightarrow> (Inl PageError, c1)
      | (True, c1) \<Rightarrow>
          (case split_ws [] name of
             [] \<Rightarrow> (Inl IndexError, c1)
           | word # _ \<Rightarrow>
               if contains (inner_text b (log c) btn) word
               then (case page_call b (ClickElement btn) c1 of
                       (False, c2) \<Rightarrow> (Inl PageError, c2)
                     | (True, c2) \<Rightarrow> (Inr True, c2))
               else click_button b name buttons c1))"

text \<open>The body of the \<open>try\<close> of \<open>select_procedure\<close> up to the value of \<open>clicked\<close>: the
  selectors first, then, when none was clicked, the \<open>button.btn\<close> elements.\<close>

definition click_procedure :: "browser \<Rightarrow> string \<Rightarrow> client \<Rightarrow> (error + bool) \<times> client" where
  "click_procedure b name c =
     (case click_first b (procedure_selectors name) c of
        (True, c1) \<Rightarrow> (Inr True, c1)
      | (False, c1) \<Rightarrow>
          (case page_call b (QuerySelectorAll ''button.btn'') c1 of
             (False, c2) \<Rightarrow> (Inl PageError, c2)
           | (True, c2) \<Rightarrow>
               click_button b name [0 ..< element_count b (log c1) ''button.btn''] c2))"

text \<open>
  \<^verbatim>\<open>
  async def select_procedure(self, procedure_id: str) -> bool:
      if not self.is_authenticated:
          raise ValueError("Must login first")
      procedure_name = procedure_map.get(procedure_id, procedure_id)
      try:
          ... clicked ...
          if clicked:
              await self.page.wait_for_load_state("networkidle")
              return True
          else:
              return False
      except Exception as e:
          return False
  \<close>
\<close>

definition select_procedure :: "browser \<Rightarrow> string \<Rightarrow> client \<Rightarrow> (error + bool) \<times> client" where
  "select_procedure b procedure_id c =
     (if \<not> is_authenticated c then (Inl ValueError_must_login, c)
      else
        (case click_procedure b (procedure_name procedure_id) c of
           (Inl e, c1) \<Rightarrow> (Inr False, c1)
         | (Inr False, c1) \<Rightarrow> (Inr False, c1)
         | (Inr True, c1) \<Rightarrow>
             (case page_call b WaitForLoadState c1 of (ok, c2) \<Rightarrow> (Inr ok, c2))))"

definition region_selectors :: "string list" where
  "region_selectors =
     [''select'', ''select[name='' @ quote @ ''idRegion'' @ quote @ '']'', ''select#idRegion'',
      ''select.form-control'']"

text \<open>
  \<^verbatim>\<open>
  for selector in selectors:
      try:
          select_elem = await self.page.query_selector(selector)
          if select_elem:
              await self.page.select_option(selector, region_id)
              selected = True
              break
      except Exception:
          continue
  \<close>
\<close>

fun select_first :: "browser \<Rightarrow> string \<Rightarrow> string list \<Rightarrow> client \<Rightarrow> bool \<times> client" where
  "select_first b region_id [] c = (False, c)"
| "select_first b region_id (selector # selectors) c =
     (case page_call b (QuerySelector selector) c of
        (False, c1) \<Rightarrow> select_first b region_id selectors c1
      | (True, c1) \<Rightarrow>
          if element_present b (log c) selector
          then (case page_call b (SelectOption selector region_id) c1 of
                  (True, c2) \<Rightarrow> (True, c2)
                | (False, c2) \<Rightarrow> select_first b region_id selectors c2)
          else select_first b region_id selectors c1)"

definition select_region :: "browser \<Rightarrow> string \<Rightarrow> client \<Rightarrow> bool \<times> client" where
  "select_region b region_id c =
     (case select_first b region_id region_selectors c of
        (False, c1) \<Rightarrow> (False, c1)
      | (True, c1) \<Rightarrow> page_call b WaitForLoadState c1)"


section \<open>client.py: the extraction script\<close>

definition monthNames :: "string list" where
  "monthNames =
     [''Enero'', ''Febrero'', ''Marzo'', ''Abril'', ''Mayo'', ''Junio'',
      ''Julio'', ''Agosto'', ''Septiembre'', ''Octubre'', ''Noviembre'', ''Diciembre'']"

definition monthMap :: "(string \<times> string) list" where
  "monthMap =
     [(''enero'', ''01''), (''febrero'', ''02''), (''marzo'', ''03''), (''abril'', ''04''),
      (''mayo'', ''05''), (''junio'', ''06''), (''julio'', ''07''), (''agosto'', ''08''),
      (''septiembre'', ''09''), (''octubre'', ''10''), (''noviembre'', ''11''),
      (''diciembre'', ''12'')]"

text \<open>\<^verbatim>\<open>/^\d{1,2}$/.test(line)\<close>\<close>

fun digits_1_2 :: "string \<Rightarrow> bool" where
  "digits_1_2 [a] = is_digit a"
| "digits_1_2 [a, b] = (is_digit a \<and> is_digit b)"
| "digits_1_2 _ = False"

text \<open>\<^verbatim>\<open>/^\d{1,2}$/.test(line) && parseInt(line) >= 1 && parseInt(line) <= 31\<close>\<close>

definition is_day :: "string \<Rightarrow> bool" where
  "is_day line = (digits_1_2 line \<and> 1 \<le> parseInt line \<and> parseInt line \<le> 31)"

text \<open>\<^verbatim>\<open>monthNames.some(m => line.toLowerCase() === m.toLowerCase())\<close>\<close>

definition is_month :: "string \<Rightarrow> bool" where
  "is_month line = list_ex (\<lambda>m. toLowerCase line = toLowerCase m) monthNames"

text \<open>\<^verbatim>\<open>/^\d{1,2}:\d{2}$/.test(line)\<close>\<close>

fun is_time :: "string \<Rightarrow> bool" where
  "is_time [h, c, m1, m2] = (is_digit h \<and> c = CHR '':'' \<and> is_digit m1 \<and> is_digit m2)"
| "is_time [h1, h2, c, m1, m2] =
     (is_digit h1 \<and> is_digit h2 \<and> c = CHR '':'' \<and> is_digit m1 \<and> is_digit m2)"
| "is_time _ = False"

text \<open>
  \<^verbatim>\<open>
  for (const line of lines) {
      if (/^\d{1,2}$/.test(line) && parseInt(line) >= 1 && parseInt(line) <= 31) { day = line; }
      if (monthNames.some(m => line.toLowerCase() === m.toLowerCase())) { month = line; }
      if (/^\d{1,2}:\d{2}$/.test(line)) { time = line; }
  }
  \<close>
  The loop carries \<open>(day, month, time)\<close>, all three \<open>''\<close> at the start.
\<close>

fun scan_lines :: "string list \<Rightarrow> string \<times> string \<times> string \<Rightarrow> string \<times> string \<times> string" where
  "scan_lines [] (day, month, time) = (day, month, time)"
| "scan_lines (line # lines) (day, month, time) =
     scan_lines lines
       (if is_day line then line else day,
        if is_month line then line else month,
        if is_time line then line else time)"

text \<open>The body of \<open>cards.forEach\<close> from the lines on: the record pushed for a card, if
  any. \<open>year\<close> is \<open>new Date().getFullYear()\<close>.\<close>

definition card_slot :: "nat \<Rightarrow> string list \<Rightarrow> slot option" where
  "card_slot year lines =
     (let officeName = (if 0 < length lines then lines ! 0 else []);
          address = (if 1 < length lines then lines ! 1 else []);
          (day, month, time) = scan_lines lines ([], [], [])
      in if officeName \<noteq> [] \<and> day \<noteq> [] \<and> month \<noteq> []
         then
           (let dayPadded = padStart 2 day;
                monthNum = (case map_of monthMap (toLowerCase month) of
                              Some n \<Rightarrow> n | None \<Rightarrow> ''01'')
            in Some \<lparr>nombreOficina = officeName,
                     direccionOficina = address,
                     fechaDisponible = dayPadded @ ''/'' @ monthNum @ ''/'' @ show_nat year,
                     horaDisponible = (if time \<noteq> [] then time else ''00:00''),
                     idOficina = []\<rparr>)
         else None)"

text \<open>\<^verbatim>\<open>text.split('\n').map(t => t.trim()).filter(t => t)\<close>\<close>

definition card_lines :: "string \<Rightarrow> string list" where
  "card_lines text = filter (\<lambda>t. t \<noteq> []) (map trim (str_split (CHR 0x0A) text))"

definition extract_card :: "nat \<Rightarrow> string \<Rightarrow> slot option" where
  "extract_card year text =
     (if \<not> contains text ''Agendar'' then None else card_slot year (card_lines text))"

text \<open>The script's result: the records of the cards, in document order.\<close>

definition extract_slots :: "nat \<Rightarrow> string list \<Rightarrow> slot list" where
  "extract_slots year texts = List.map_filter (extract_card year) texts"

section \<open>client.py: get_slots_by_region\<close>

text \<open>\<^verbatim>\<open>key = f"{slot['nombreOficina']}_{slot['fechaDisponible']}_{slot['horaDisponible']}"\<close>\<close>

definition dedup_key :: "slot \<Rightarrow> string" where
  "dedup_key s = nombreOficina s @ ''_'' @ fechaDisponible s @ ''_'' @ horaDisponible s"

text \<open>
  \<^verbatim>\<open>
  seen = set()
  unique_slots = []
  for slot in slots_data:
      key = ...
      if key not in seen:
          seen.add(key)
          unique_slots.append(slot)
  \<close>
\<close>

fun remove_duplicates :: "string set \<Rightarrow> slot list \<Rightarrow> slot list \<Rightarrow> slot list" where
  "remove_duplicates seen unique_slots [] = unique_slots"
| "remove_duplicates seen unique_slots (s # slots_data) =
     (if dedup_key s \<notin> seen
      then remove_duplicates (insert (dedup_key s) seen) (unique_slots @ [s]) slots_data
      else remove_duplicates seen unique_slots slots_data)"

text \<open>
  \<^verbatim>\<open>
  async def get_slots_by_region(self, procedure_id: str, region_id: str) -> list[dict]:
      if not self.is_authenticated:
          raise ValueError("Must login first")
      if not await self.select_procedure(procedure_id):
          return []
      if not await self.select_region(region_id):
          return []
      try:
          slots_data = await self.page.evaluate(...)
          ... unique_slots ...
          return unique_slots
      except Exception as e:
          return []
  \<close>
\<close>

definition get_slots_by_region ::
  "browser \<Rightarrow> string \<Rightarrow> string \<Rightarrow> client \<Rightarrow> (error + slot list) \<times> client" where
  "get_slots_by_region b procedure_id region_id c =
     (if \<not> is_authenticated c then (Inl ValueError_must_login, c)
      else
        (case select_procedure b procedure_id c of
           (Inl e, c1) \<Rightarrow> (Inl e, c1)
         | (Inr False, c1) \<Rightarrow> (Inr [], c1)
         | (Inr True, c1) \<Rightarrow>
             (case select_region b region_id c1 of
                (False, c2) \<Rightarrow> (Inr [], c2)
              | (True, c2) \<Rightarrow>
                  (case page_call b Evaluate c2 of
                     (False, c3) \<Rightarrow> (Inr [], c3)
                   | (True, c3) \<Rightarrow>
                       (Inr (remove_duplicates {} []
                               (extract_slots (full_year b (log c2)) (card_texts b (log c2)))),
                        c3)))))"

section \<open>routers/slots.py and schemas/slots.py\<close>

record SlotResponse =
  office_name :: string
  office_address :: string
  date :: string
  time :: string
  datetime_iso :: string
  office_id :: string

text \<open>\<open>SlotListResponse\<close>, without the time stamp \<open>scraped_at\<close>.\<close>

record SlotListResponse =
  slots :: "SlotResponse list"
  count :: nat
  procedure_id :: string
  region_id :: string

text \<open>The list comprehension of \<open>get_slots\<close>: one response per slot, the first
  \<open>format_slot_datetime_iso\<close> that raises ending it.\<close>

fun slot_responses :: "slot list \<Rightarrow> error + SlotResponse list" where
  "slot_responses [] = Inr []"
| "slot_responses (s # ss) =
     (case format_slot_datetime_iso s of
        Inl e \<Rightarrow> Inl e
      | Inr iso_text \<Rightarrow>
          (case slot_responses ss of
             Inl e \<Rightarrow> Inl e
           | Inr rs \<Rightarrow>
               Inr (\<lparr>office_name = nombreOficina s, office_address = direccionOficina s,
                     date = fechaDisponible s, time = horaDisponible s,
                     datetime_iso = iso_text, office_id = idOficina s\<rparr> # rs)))"

text \<open>
  What \<open>get_slots\<close> does with the raw slots:
  \<^verbatim>\<open>
  if not raw_slots:
      return SlotListResponse(slots=[], count=0, ...)
  sorted_slots = sort_slots_by_datetime(raw_slots)
  slot_responses = [SlotResponse(...) for slot in sorted_slots]
  return SlotListResponse(slots=slot_responses, count=len(slot_responses), ...)
  \<close>
\<close>

definition respond :: "string \<Rightarrow> string \<Rightarrow> slot list \<Rightarrow> error + SlotListResponse" where
  "respond pid rid raw_slots =
     (if raw_slots = []
      then Inr \<lparr>slots = [], count = 0, procedure_id = pid, region_id = rid\<rparr>
      else
        (case sort_slots_by_datetime raw_slots of
           Inl e \<Rightarrow> Inl e
         | Inr sorted_slots \<Rightarrow>
             (case slot_responses sorted_slots of
                Inl e \<Rightarrow> Inl e
              | Inr rs \<Rightarrow>
                  Inr \<lparr>slots = rs, count = length rs, procedure_id = pid, region_id = rid\<rparr>)))"

text \<open>The body of the \<open>async with\<close> block of \<open>get_slots\<close>.\<close>

definition with_client ::
  "browser \<Rightarrow> string \<Rightarrow> string \<Rightarrow> client \<Rightarrow> (error + SlotListResponse) \<times> client" where
  "with_client b pid rid c =
     (case login b c of
        (Inl e, c1) \<Rightarrow> (Inl e, c1)
      | (Inr False, c1) \<Rightarrow> (Inl (HTTPException 503), c1)
      | (Inr True, c1) \<Rightarrow>
          (case get_slots_by_region b pid rid c1 of
             (Inl e, c2) \<Rightarrow> (Inl e, c2)
           | (Inr raw_slots, c2) \<Rightarrow> (respond pid rid raw_slots, c2)))"

text \<open>The fields of \<open>Settings\<close> that are strings; \<open>get_slots\<close> receives the settings as
  an argument.\<close>

record Settings =
  srcei_rut :: string
  srcei_password :: string
  srcei_username :: string

text \<open>
  \<^verbatim>\<open>
  @field_validator("rut")
  @classmethod
  def rut_must_contain_dash(cls, v: str) -> str:
      if "-" not in v:
          raise ValueError(f"RUT must contain dash separator: {v}")
      return v
  \<close>
  \<open>SRCEIConfig(rut=..., password=...)\<close> runs it on the rut.
\<close>

definition rut_must_contain_dash :: "string \<Rightarrow> error + string" where
  "rut_must_contain_dash v = (if CHR ''-'' \<notin> set v then Inl ValidationError else Inr v)"

text \<open>
  \<^verbatim>\<open>
  def __init__(self, config: SRCEIConfig, headless: bool = True):
      self.config = config
      self.config.validate()
      self.headless = headless
      self.playwright = None
      self.browser = None
      self.context = None
      self.page = None
      self.is_authenticated = False
  \<close>
  \<open>validate\<close> is a method the config inherits from pydantic's \<open>BaseModel\<close>, which is
  not code of this repository: whether that call raises is the parameter
  \<open>validate_raises\<close>.
\<close>

definition init_client :: "bool \<Rightarrow> string \<Rightarrow> string \<Rightarrow> error + client" where
  "init_client validate_raises config_rut config_password =
     (if validate_raises then Inl ConfigError
      else Inr \<lparr>rut = config_rut, password = config_password, page_open = False,
                is_authenticated = False, log = []\<rparr>)"

text \<open>
  \<^verbatim>\<open>
  try:
      config = SRCEIConfig(rut=settings.srcei_rut, password=settings.srcei_password)
      async with SRCEIPlaywrightClient(config, headless=True) as client:
          ...
  except HTTPException:
      raise
  except Exception as e:
      raise HTTPException(status_code=500, detail=f"Internal server error: {str(e)}")
  \<close>
  \<open>get_slots\<close>, entered with the query parameters the framework has validated: the
  config and the client are built, the browser is started on entering the \<open>async with\<close>
  block and closed on leaving it, whatever the body did (an exception of \<open>close\<close>
  replaces the one of the body); an \<open>HTTPException\<close> passes through and every other
  exception becomes status 500. The result is the response or the \<open>HTTPException\<close>
  raised.
\<close>

definition get_slots ::
  "browser \<Rightarrow> bool \<Rightarrow> Settings \<Rightarrow> string \<Rightarrow> string \<Rightarrow> error + SlotListResponse" where
  "get_slots b validate_raises settings pid rid =
     (let r =
            (case rut_must_contain_dash (srcei_rut settings) of
               Inl e \<Rightarrow> Inl e
             | Inr config_rut \<Rightarrow>
                 (case init_client validate_raises config_rut (srcei_password settings) of
                    Inl e \<Rightarrow> Inl e
                  | Inr c \<Rightarrow>
                      (case start_browser b c of
                         (Inl e, c1) \<Rightarrow> Inl e
                       | (Inr _, c1) \<Rightarrow>
                           (case with_client b pid rid c1 of
                              (r, c2) \<Rightarrow>
                                (case close b c2 of
                                   (Inl e, c3) \<Rightarrow> Inl e
                                 | (Inr _, c3) \<Rightarrow> r)))))
      in (case r of
            Inl (HTTPException n) \<Rightarrow> Inl (HTTPException n)
          | Inl _ \<Rightarrow> Inl (HTTPException 500)
          | Inr resp \<Rightarrow> Inr resp))"

section \<open>Notions of the specification\<close>

text \<open>The two-digit, zero-padded decimal text of a number below 100.\<close>

definition two_digits :: "nat \<Rightarrow> string" where
  "two_digits n = [digit_char (n div 10), digit_char (n mod 10)]"

text \<open>A string of one or two decimal digits: a day or month as the specification
  writes it (\<open>D\<close>, \<open>DD\<close>).\<close>

definition short_number :: "string \<Rightarrow> bool" where
  "short_number s = (s \<noteq> [] \<and> length s \<le> 2 \<and> list_all is_digit s)"

text \<open>The first and the last line of a kind, \<open>''\<close> when there is none.\<close>

definition first_match :: "(string \<Rightarrow> bool) \<Rightarrow> string list \<Rightarrow> string" where
  "first_match P lines = (case filter P lines of [] \<Rightarrow> [] | l # _ \<Rightarrow> l)"

definition last_match :: "(string \<Rightarrow> bool) \<Rightarrow> string list \<Rightarrow> string" where
  "last_match P lines = (case rev (filter P lines) of [] \<Rightarrow> [] | l # _ \<Rightarrow> l)"

text \<open>The sort key \<open>"<ISO date> <time>"\<close> of a slot whose date parses.\<close>

definition sortable :: "slot \<Rightarrow> string" where
  "sortable s = (case format_slot_datetime s of Inl _ \<Rightarrow> [] | Inr k \<Rightarrow> k)"

text \<open>A date with exactly two separators.\<close>

definition well_delimited :: "string \<Rightarrow> bool" where
  "well_delimited fecha = (count_list fecha CHR ''/'' = 2)"

text \<open>The composite key of the specification: office name, ISO date, time.\<close>

definition composite_key :: "slot \<Rightarrow> string \<times> (error + string) \<times> string" where
  "composite_key s = (nombreOficina s, parse_slot_date (fechaDisponible s), horaDisponible s)"

text \<open>The shape of a raw slot record: a date of two characters, two characters and a
  year between separators, and no underscore in date or time.\<close>

definition raw_record :: "slot \<Rightarrow> bool" where
  "raw_record s =
     ((case str_split CHR ''/'' (fechaDisponible s) of
         [d, m, y] \<Rightarrow> length d = 2 \<and> length m = 2
       | _ \<Rightarrow> False)
      \<and> CHR ''_'' \<notin> set (fechaDisponible s) \<and> CHR ''_'' \<notin> set (horaDisponible s))"

text \<open>A slot dictionary with an office name, a date and a time, as the tests write them;
  the other fields are empty.\<close>

definition slot_of :: "string \<Rightarrow> string \<Rightarrow> string \<Rightarrow> slot" where
  "slot_of fecha hora nombre =
     \<lparr>nombreOficina = nombre, direccionOficina = [], fechaDisponible = fecha,
      horaDisponible = hora, idOficina = []\<rparr>"

text \<open>The browser calls of region selection and of extraction.\<close>

fun region_or_extraction :: "action \<Rightarrow> bool" where
  "region_or_extraction (QuerySelector _) = True"
| "region_or_extraction (SelectOption _ _) = True"
| "region_or_extraction Evaluate = True"
| "region_or_extraction _ = False"

text \<open>The client went from \<open>c\<close> to \<open>c'\<close> by browser calls of kind \<open>P\<close> only: nothing but
  the history changed, and it grew by such calls.\<close>

definition only_calls :: "(action \<Rightarrow> bool) \<Rightarrow> client \<Rightarrow> client \<Rightarrow> bool" where
  "only_calls P c c' = (\<exists>new. c' = c\<lparr>log := log c @ new\<rparr> \<and> list_all P new)"

text \<open>Browsers and clients to run the model on. A client as its constructor leaves it,
  and one that has logged in; a browser that shows the block page, one whose login form
  comes back after the submit, one where an exception ends the navigation, one that shows
  the block page and raises when it is closed, and one that shows the selection page with
  two buttons of other procedures; and settings with a rut that has its dash.\<close>

definition new_client :: client where
  "new_client =
     \<lparr>rut = ''12345678-9'', password = ''secret'', page_open = False,
      is_authenticated = False, log = []\<rparr>"

definition logged_in_client :: client where
  "logged_in_client = new_client\<lparr>page_open := True, is_authenticated := True\<rparr>"

definition blocked_browser :: browser where
  "blocked_browser =
     \<lparr>raises = (\<lambda>h a. False), title_text = (\<lambda>h. ''Request Rejected''),
      page_url = (\<lambda>h. BASE_URL @ ''/web/init.srcei''), element_count = (\<lambda>h sel. 0),
      inner_text = (\<lambda>h i. []), element_present = (\<lambda>h sel. False),
      card_texts = (\<lambda>h. []), full_year = (\<lambda>h. 2026)\<rparr>"





definition other_buttons_browser :: browser where
  "other_buttons_browser =
     blocked_browser
       \<lparr>raises := (\<lambda>h a. case a of Click _ \<Rightarrow> True | _ \<Rightarrow> False),
        title_text := (\<lambda>h. ''Reserva de Hora''),
        element_count := (\<lambda>h sel. 2),
        inner_text := (\<lambda>h i. ''Otro tramite'')\<rparr>"

section \<open>Facts about the string functions\<close>

lemma length_str_split: "length (str_split c s) = Suc (count_list s c)"
  by (induction s) (auto split: list.splits)

lemma str_split_no_sep: "c \<notin> set s \<Longrightarrow> str_split c s = [s]"
  by (induction s) auto

lemma str_split_append_sep:
  "c \<notin> set a \<Longrightarrow> str_split c (a @ c # b) = a # str_split c b"
  by (induction a) auto

lemma str_split_three:
  assumes "CHR ''/'' \<notin> set d" "CHR ''/'' \<notin> set m" "CHR ''/'' \<notin> set y"
  shows "str_split CHR ''/'' (d @ ''/'' @ m @ ''/'' @ y) = [d, m, y]"
  using assms by (simp add: str_split_append_sep str_split_no_sep)

lemma str_split_pieces: "p \<in> set (str_split c s) \<Longrightarrow> c \<notin> set p"
  by (induction s arbitrary: p) (auto split: if_splits list.splits)

lemma str_split_not_Nil [simp]: "str_split c s \<noteq> []"
  by (induction s) (auto split: list.splits)

lemma str_split_join2:
  "str_split c s = p # ps \<Longrightarrow> s = p @ concat (map (\<lambda>q. c # q) ps)"
proof (induction s arbitrary: p ps)
  case Nil
  then show ?case by simp
next
  case (Cons a s)
  obtain q qs where q: "str_split c s = q # qs"
    by (cases "str_split c s") simp_all
  from Cons.IH[OF q] have s: "s = q @ concat (map (\<lambda>q. c # q) qs)" .
  show ?case
  proof (cases "a = c")
    case True
    with Cons.prems q have "p = []" "ps = q # qs" by simp_all
    with s True show ?thesis by simp
  next
    case False
    with Cons.prems q have "p = a # q" "ps = qs" by simp_all
    with s show ?thesis by simp
  qed
qed

lemma parse_slot_date_parts:
  assumes "CHR ''/'' \<notin> set d" "CHR ''/'' \<notin> set m" "CHR ''/'' \<notin> set y"
  shows "parse_slot_date (d @ ''/'' @ m @ ''/'' @ y)
         = Inr (y @ ''-'' @ zfill 2 m @ ''-'' @ zfill 2 d)"
  unfolding parse_slot_date_def using str_split_three[OF assms] by simp

lemma parse_slot_date_raises_iff:
  "(\<exists>e. parse_slot_date s = Inl e) \<longleftrightarrow> length (str_split CHR ''/'' s) \<noteq> 3"
  unfolding parse_slot_date_def
  by (auto split: list.splits)

lemma parse_slot_date_Inl:
  "count_list s CHR ''/'' \<noteq> 2 \<Longrightarrow>
   parse_slot_date s = Inl (ValueError_unpack (Suc (count_list s CHR ''/'')))"
  using length_str_split[of "CHR ''/''" s]
  unfolding parse_slot_date_def
  by (auto split: list.splits)

lemma parse_slot_date_Inr:
  assumes "count_list s CHR ''/'' = 2"
  shows "\<exists>d m y. s = d @ ''/'' @ m @ ''/'' @ y \<and> str_split CHR ''/'' s = [d, m, y]
           \<and> parse_slot_date s = Inr (y @ ''-'' @ zfill 2 m @ ''-'' @ zfill 2 d)"
proof -
  from assms length_str_split[of "CHR ''/''" s]
  have "length (str_split CHR ''/'' s) = 3" by simp
  then obtain d m y where sp: "str_split CHR ''/'' s = [d, m, y]"
    by (auto simp: length_Suc_conv numeral_3_eq_3)
  from str_split_join2[OF sp] have "s = d @ ''/'' @ m @ ''/'' @ y" by simp
  with sp show ?thesis unfolding parse_slot_date_def by auto
qed


section \<open>Digits\<close>

lemma char_of_digit_codes:
  "char_of (48::nat) = CHR ''0''" "char_of (49::nat) = CHR ''1''"
  "char_of (50::nat) = CHR ''2''" "char_of (51::nat) = CHR ''3''"
  "char_of (52::nat) = CHR ''4''" "char_of (53::nat) = CHR ''5''"
  "char_of (54::nat) = CHR ''6''" "char_of (55::nat) = CHR ''7''"
  "char_of (56::nat) = CHR ''8''" "char_of (57::nat) = CHR ''9''"
  by code_simp+

lemma digit_char_digit_val: "is_digit c \<Longrightarrow> digit_char (digit_val c) = c"
  unfolding is_digit_def digit_char_def digit_val_def
  by (auto simp: char_of_digit_codes)

lemma digit_val_less: "is_digit c \<Longrightarrow> digit_val c < 10"
  unfolding is_digit_def digit_val_def by auto

lemma is_digit_plain:
  "is_digit c \<Longrightarrow> c \<noteq> CHR ''+'' \<and> c \<noteq> CHR ''-'' \<and> c \<noteq> CHR ''/'' \<and> c \<noteq> CHR ''_''"
  unfolding is_digit_def by auto

lemma digit_char_0: "digit_char 0 = CHR ''0''"
  unfolding digit_char_def by (simp add: char_of_digit_codes)

lemma is_digit_digit_char: "n < 10 \<Longrightarrow> is_digit (digit_char n)"
proof -
  assume "n < 10"
  then have "n \<in> set [0, 1, 2, 3, 4, 5, 6, 7, 8, 9]" by auto
  then show ?thesis
    unfolding is_digit_def digit_char_def
    by (auto simp: char_of_digit_codes)
qed

lemma zfill_two_digits:
  assumes "short_number s"
  shows "zfill 2 s = two_digits (parseInt s)"
proof (cases s)
  case Nil with assms show ?thesis by (simp add: short_number_def)
next
  case (Cons a t)
  show ?thesis
  proof (cases t)
    case Nil
    with Cons assms have a: "is_digit a" by (simp add: short_number_def)
    then show ?thesis using Cons Nil digit_val_less[OF a] is_digit_plain[OF a]
      by (simp add: zfill_def two_digits_def parseInt_def digit_char_digit_val digit_char_0)
  next
    case (Cons b u)
    with \<open>s = a # t\<close> assms have u: "u = []" and a: "is_digit a" and b: "is_digit b"
      by (auto simp: short_number_def)
    then show ?thesis using Cons \<open>s = a # t\<close> digit_val_less[OF b]
      by (simp add: zfill_def two_digits_def parseInt_def digit_char_digit_val)
  qed
qed

lemma digits_no_slash: "list_all is_digit s \<Longrightarrow> CHR ''/'' \<notin> set s"
  by (induction s) (auto dest: is_digit_plain)

section \<open>Parsing a date\<close>

text \<open>
  C10. \<open>parse_slot_date\<close> raises exactly when its input does not split on the
  separator into three parts, that is, when it does not hold exactly two separators. With
  two separators it returns year, zero-filled month and zero-filled day, whatever the
  three parts are: nothing checks that they are numbers or in range, and
  \<open>99/xx/2026\<close> gives \<open>2026-xx-99\<close>.
\<close>

theorem parse_slot_date_raises_exactly:
  "((\<exists>e. parse_slot_date s = Inl e) \<longleftrightarrow> length (str_split CHR ''/'' s) \<noteq> 3)
   \<and> (length (str_split CHR ''/'' s) = 3 \<longleftrightarrow> count_list s CHR ''/'' = 2)
   \<and> (count_list s CHR ''/'' = 2 \<longrightarrow>
        (\<exists>d m y. s = d @ ''/'' @ m @ ''/'' @ y
           \<and> parse_slot_date s = Inr (y @ ''-'' @ zfill 2 m @ ''-'' @ zfill 2 d)))
   \<and> parse_slot_date ''99/xx/2026'' = Inr ''2026-xx-99''"
proof (intro conjI impI)
  show "(\<exists>e. parse_slot_date s = Inl e) \<longleftrightarrow> length (str_split CHR ''/'' s) \<noteq> 3"
    by (rule parse_slot_date_raises_iff)
  show "length (str_split CHR ''/'' s) = 3 \<longleftrightarrow> count_list s CHR ''/'' = 2"
    by (simp add: length_str_split)
  show "parse_slot_date ''99/xx/2026'' = Inr ''2026-xx-99''"
    by (simp add: parse_slot_date_def zfill_def)
next
  assume "count_list s CHR ''/'' = 2"
  from parse_slot_date_Inr[OF this]
  show "\<exists>d m y. s = d @ ''/'' @ m @ ''/'' @ y
           \<and> parse_slot_date s = Inr (y @ ''-'' @ zfill 2 m @ ''-'' @ zfill 2 d)"
    by blast
qed

theorem parse_slot_date_raises_exactly_witness:
  "count_list ''31/02/2026'' CHR ''/'' = 2
   \<and> (\<exists>d m y. ''31/02/2026'' = d @ ''/'' @ m @ ''/'' @ y
         \<and> parse_slot_date ''31/02/2026'' = Inr (y @ ''-'' @ zfill 2 m @ ''-'' @ zfill 2 d))
   \<and> length (str_split CHR ''/'' ''29-01-2026'') \<noteq> 3
   \<and> (\<exists>e. parse_slot_date ''29-01-2026'' = Inl e)"
proof -
  have c: "count_list ''31/02/2026'' CHR ''/'' = 2" by simp
  have l: "length (str_split CHR ''/'' ''29-01-2026'') \<noteq> 3" by simp
  from parse_slot_date_raises_exactly[of "''31/02/2026''"] c
  have "\<exists>d m y. ''31/02/2026'' = d @ ''/'' @ m @ ''/'' @ y
         \<and> parse_slot_date ''31/02/2026'' = Inr (y @ ''-'' @ zfill 2 m @ ''-'' @ zfill 2 d)"
    by blast
  moreover from parse_slot_date_raises_exactly[of "''29-01-2026''"] l
  have "\<exists>e. parse_slot_date ''29-01-2026'' = Inl e" by blast
  ultimately show ?thesis using c l by blast
qed

text \<open>
  C2. For a day of one or two digits between 1 and 31, a month of one or two digits
  between 1 and 12 and a year of four digits, \<open>parse_slot_date\<close> returns the year, the
  two-digit month and the two-digit day, separated by hyphens.
\<close>

theorem parse_slot_date_zero_padded:
  assumes "short_number d" "1 \<le> parseInt d" "parseInt d \<le> 31"
    and "short_number m" "1 \<le> parseInt m" "parseInt m \<le> 12"
    and "length y = 4" "list_all is_digit y"
  shows "parse_slot_date (d @ ''/'' @ m @ ''/'' @ y)
         = Inr (y @ ''-'' @ two_digits (parseInt m) @ ''-'' @ two_digits (parseInt d))"
proof -
  from assms(1,4) have "CHR ''/'' \<notin> set d" "CHR ''/'' \<notin> set m"
    by (simp_all add: short_number_def digits_no_slash)
  moreover from assms(8) have "CHR ''/'' \<notin> set y" by (rule digits_no_slash)
  ultimately have "parse_slot_date (d @ ''/'' @ m @ ''/'' @ y)
         = Inr (y @ ''-'' @ zfill 2 m @ ''-'' @ zfill 2 d)"
    by (rule parse_slot_date_parts)
  with assms(1,4) show ?thesis by (simp add: zfill_two_digits)
qed

theorem parse_slot_date_zero_padded_witness:
  "short_number ''5'' \<and> 1 \<le> parseInt ''5'' \<and> parseInt ''5'' \<le> 31
   \<and> short_number ''3'' \<and> 1 \<le> parseInt ''3'' \<and> parseInt ''3'' \<le> 12
   \<and> length ''2026'' = 4 \<and> list_all is_digit ''2026''
   \<and> parse_slot_date ''5/3/2026'' = Inr ''2026-03-05''"
proof -
  have h: "short_number ''5''" "1 \<le> parseInt ''5''" "parseInt ''5'' \<le> 31"
    "short_number ''3''" "1 \<le> parseInt ''3''" "parseInt ''3'' \<le> 12"
    "length ''2026'' = 4" "list_all is_digit ''2026''"
    by (simp_all add: short_number_def is_digit_def parseInt_def digit_val_def)
  have t: "two_digits (parseInt ''3'') = ''03''" "two_digits (parseInt ''5'') = ''05''"
    by (simp_all add: two_digits_def parseInt_def digit_val_def digit_char_def char_of_digit_codes)
  from parse_slot_date_zero_padded[OF h] t h show ?thesis by simp
qed

section \<open>Sorting\<close>

lemma format_slot_datetime_sortable:
  "well_delimited (fechaDisponible s) \<Longrightarrow> format_slot_datetime s = Inr (sortable s)"
  unfolding well_delimited_def sortable_def format_slot_datetime_def
  by (auto dest!: parse_slot_date_Inr)

lemma format_slot_datetime_raises:
  "\<not> well_delimited (fechaDisponible s) \<Longrightarrow>
   format_slot_datetime s
     = Inl (ValueError_unpack (Suc (count_list (fechaDisponible s) CHR ''/'')))"
  unfolding well_delimited_def format_slot_datetime_def
  by (simp add: parse_slot_date_Inl)


lemma sort_keys_raises:
  "\<exists>s\<in>set batch. \<not> well_delimited (fechaDisponible s) \<Longrightarrow>
   \<exists>n. n \<noteq> 3 \<and> sort_keys batch = Inl (ValueError_unpack n)"
proof (induction batch)
  case Nil
  then show ?case by simp
next
  case (Cons s batch)
  show ?case
  proof (cases "well_delimited (fechaDisponible s)")
    case True
    with Cons.prems have "\<exists>s\<in>set batch. \<not> well_delimited (fechaDisponible s)" by auto
    from Cons.IH[OF this] True show ?thesis
      by (auto simp: format_slot_datetime_sortable)
  next
    case False
    then have "Suc (count_list (fechaDisponible s) CHR ''/'') \<noteq> 3"
      by (simp add: well_delimited_def)
    with False show ?thesis
      by (simp add: format_slot_datetime_raises)
  qed
qed









text \<open>
  Against C1 as the specification states it (the malformed record is skipped, the others
  are returned): a batch of three records, the second with hyphens for separators. No
  record comes back, neither from the sort nor from the construction of the response.
\<close>

theorem malformed_date_aborts_batch_counterexample:
  "sort_slots_by_datetime
     [slot_of ''30/01/2026'' ''10:00'' ''B'', slot_of ''29-01-2026'' ''15:00'' ''A'',
      slot_of ''29/01/2026'' ''09:30'' ''C'']
   = Inl (ValueError_unpack 1)
   \<and> respond ''6'' ''13''
     [slot_of ''30/01/2026'' ''10:00'' ''B'', slot_of ''29-01-2026'' ''15:00'' ''A'',
      slot_of ''29/01/2026'' ''09:30'' ''C'']
   = Inl (ValueError_unpack 1)"
  by (simp add: sort_slots_by_datetime_def respond_def format_slot_datetime_def
        parse_slot_date_def slot_of_def zfill_def)

text \<open>
  C1, as the code has it. A record whose date does not have exactly two separators makes
  \<open>parse_slot_date\<close> raise ValueError, and a batch that holds such a record is lost as a
  whole: \<open>sort_slots_by_datetime\<close>, and the construction of the response from the batch
  (the sort, then the conversion), raise that ValueError and return no record.
\<close>

theorem malformed_date_aborts_batch:
  "(\<not> well_delimited (fechaDisponible s) \<longrightarrow>
      (\<exists>m. m \<noteq> 3 \<and> parse_slot_date (fechaDisponible s) = Inl (ValueError_unpack m)))
   \<and> ((\<exists>s\<in>set batch. \<not> well_delimited (fechaDisponible s)) \<longrightarrow>
        (\<exists>n. n \<noteq> 3 \<and> sort_slots_by_datetime batch = Inl (ValueError_unpack n)
           \<and> respond pid rid batch = Inl (ValueError_unpack n)))"
proof (intro conjI impI)
  assume "\<not> well_delimited (fechaDisponible s)"
  then have c: "count_list (fechaDisponible s) CHR ''/'' \<noteq> 2"
    by (simp add: well_delimited_def)
  then have "Suc (count_list (fechaDisponible s) CHR ''/'') \<noteq> 3" by simp
  with parse_slot_date_Inl[OF c]
  show "\<exists>m. m \<noteq> 3 \<and> parse_slot_date (fechaDisponible s) = Inl (ValueError_unpack m)"
    by blast
next
  assume bad: "\<exists>s\<in>set batch. \<not> well_delimited (fechaDisponible s)"
  from sort_keys_raises[OF bad] obtain n
    where n: "n \<noteq> 3" "sort_keys batch = Inl (ValueError_unpack n)" by blast
  then have s: "sort_slots_by_datetime batch = Inl (ValueError_unpack n)"
    by (simp add: sort_slots_by_datetime_def)
  from bad have "batch \<noteq> []" by auto
  with s have "respond pid rid batch = Inl (ValueError_unpack n)"
    by (simp add: respond_def)
  with n(1) s show "\<exists>n. n \<noteq> 3 \<and> sort_slots_by_datetime batch = Inl (ValueError_unpack n)
           \<and> respond pid rid batch = Inl (ValueError_unpack n)" by blast
qed

theorem malformed_date_aborts_batch_witness:
  "\<not> well_delimited (fechaDisponible (slot_of ''29/01/2026/x'' ''15:00'' ''A''))
   \<and> (\<exists>m. m \<noteq> 3
        \<and> parse_slot_date (fechaDisponible (slot_of ''29/01/2026/x'' ''15:00'' ''A''))
            = Inl (ValueError_unpack m))
   \<and> (\<exists>s\<in>set [slot_of ''30/01/2026'' ''10:00'' ''B'', slot_of ''29/01/2026/x'' ''15:00'' ''A''].
        \<not> well_delimited (fechaDisponible s))
   \<and> (\<exists>n. n \<noteq> 3
        \<and> sort_slots_by_datetime
            [slot_of ''30/01/2026'' ''10:00'' ''B'', slot_of ''29/01/2026/x'' ''15:00'' ''A'']
          = Inl (ValueError_unpack n)
        \<and> respond ''6'' ''13''
            [slot_of ''30/01/2026'' ''10:00'' ''B'', slot_of ''29/01/2026/x'' ''15:00'' ''A'']
          = Inl (ValueError_unpack n))"
proof -
  let ?a = "slot_of ''29/01/2026/x'' ''15:00'' ''A''"
  let ?B = "[slot_of ''30/01/2026'' ''10:00'' ''B'', ?a]"
  have g: "\<not> well_delimited (fechaDisponible ?a)"
    by (simp add: slot_of_def well_delimited_def)
  have h: "\<exists>s\<in>set ?B. \<not> well_delimited (fechaDisponible s)"
    by (simp add: slot_of_def well_delimited_def)
  from malformed_date_aborts_batch[of ?a ?B "''6''" "''13''"] g h show ?thesis by blast
qed

section \<open>The scan of a card's lines\<close>

lemma scan_lines_from:
  "scan_lines lines (d, m, t)
   = ((case rev (filter is_day lines) of [] \<Rightarrow> d | l # _ \<Rightarrow> l),
      (case rev (filter is_month lines) of [] \<Rightarrow> m | l # _ \<Rightarrow> l),
      (case rev (filter is_time lines) of [] \<Rightarrow> t | l # _ \<Rightarrow> l))"
proof (induction lines arbitrary: d m t)
  case Nil
  then show ?case by simp
next
  case (Cons line lines)
  show ?case
    by (simp add: Cons.IH split: list.splits)
qed

lemma scan_lines_last:
  "scan_lines lines ([], [], [])
   = (last_match is_day lines, last_match is_month lines, last_match is_time lines)"
  by (simp add: scan_lines_from last_match_def)

lemma last_match_in:
  "last_match P lines \<noteq> [] \<Longrightarrow> last_match P lines \<in> set lines \<and> P (last_match P lines)"
proof -
  assume a: "last_match P lines \<noteq> []"
  then obtain l ls where r: "rev (filter P lines) = l # ls"
    by (cases "rev (filter P lines)") (simp_all add: last_match_def)
  then have "l \<in> set (rev (filter P lines))" by simp
  then have "l \<in> set lines \<and> P l" by simp
  with r show ?thesis by (simp add: last_match_def)
qed

lemma last_match_found:
  assumes "\<And>l. P l \<Longrightarrow> l \<noteq> []"
  shows "last_match P lines \<noteq> [] \<longleftrightarrow> (\<exists>l\<in>set lines. P l)"
proof
  assume "last_match P lines \<noteq> []"
  from last_match_in[OF this] show "\<exists>l\<in>set lines. P l" by blast
next
  assume "\<exists>l\<in>set lines. P l"
  then have "filter P lines \<noteq> []" by (simp add: filter_empty_conv)
  then obtain l ls where r: "rev (filter P lines) = l # ls"
    by (cases "rev (filter P lines)") simp_all
  then have "l \<in> set (rev (filter P lines))" by simp
  then have "P l" by simp
  with assms r show "last_match P lines \<noteq> []" by (simp add: last_match_def)
qed

lemma is_day_not_Nil: "is_day l \<Longrightarrow> l \<noteq> []"
  by (auto simp: is_day_def)

lemma is_time_not_Nil: "is_time l \<Longrightarrow> l \<noteq> []"
  by auto

lemma is_month_not_Nil: "is_month l \<Longrightarrow> l \<noteq> []"
  by (auto simp: is_month_def monthNames_def toLowerCase_def list_ex_iff)

lemma card_slot_unfold:
  "card_slot year lines =
     (if lines \<noteq> [] \<and> hd lines \<noteq> [] \<and> last_match is_day lines \<noteq> []
         \<and> last_match is_month lines \<noteq> []
      then Some \<lparr>nombreOficina = hd lines,
                 direccionOficina = (if 1 < length lines then lines ! 1 else []),
                 fechaDisponible = padStart 2 (last_match is_day lines) @ ''/''
                   @ (case map_of monthMap (toLowerCase (last_match is_month lines)) of
                        Some n \<Rightarrow> n | None \<Rightarrow> ''01'')
                   @ ''/'' @ show_nat year,
                 horaDisponible = (if last_match is_time lines \<noteq> []
                                   then last_match is_time lines else ''00:00''),
                 idOficina = []\<rparr>
      else None)"
  unfolding card_slot_def scan_lines_last
  by (cases lines) (simp_all add: Let_def)

lemma card_lines_not_Nil: "[] \<notin> set (card_lines text)"
  by (simp add: card_lines_def)


lemma last_match_split:
  "P l \<Longrightarrow> \<forall>x\<in>set post. \<not> P x \<Longrightarrow> last_match P (pre @ l # post) = l"
  by (simp add: last_match_def filter_empty_conv[THEN iffD2])

text \<open>
  Against C3 as the specification states it (the first match of each kind wins): a card
  with two dates. The first match of each kind is \<open>5\<close>, \<open>Enero\<close>, \<open>09:30\<close>, and the scan
  ends with \<open>12\<close>, \<open>Marzo\<close>, \<open>10:15\<close>.
\<close>

theorem scan_lines_first_match_counterexample:
  "scan_lines [''Oficina Santiago'', ''Huerfanos 1570'', ''5'', ''Enero'', ''09:30'',
               ''12'', ''Marzo'', ''10:15'', ''Agendar''] ([], [], [])
   = (''12'', ''Marzo'', ''10:15'')
   \<and> first_match is_day [''Oficina Santiago'', ''Huerfanos 1570'', ''5'', ''Enero'', ''09:30'',
               ''12'', ''Marzo'', ''10:15'', ''Agendar''] = ''5''
   \<and> first_match is_month [''Oficina Santiago'', ''Huerfanos 1570'', ''5'', ''Enero'', ''09:30'',
               ''12'', ''Marzo'', ''10:15'', ''Agendar''] = ''Enero''
   \<and> first_match is_time [''Oficina Santiago'', ''Huerfanos 1570'', ''5'', ''Enero'', ''09:30'',
               ''12'', ''Marzo'', ''10:15'', ''Agendar''] = ''09:30''"
  by code_simp

text \<open>
  C3, as the code has it. The scan has no \<open>break\<close>: each matching line overwrites the
  earlier one, so the LAST matching line of each kind is the extracted day, month and time,
  and \<open>''\<close> stands for a kind without a matching line.
\<close>

theorem scan_lines_last_match:
  "scan_lines lines ([], [], [])
     = (last_match is_day lines, last_match is_month lines, last_match is_time lines)
   \<and> (is_day l \<and> (\<forall>x\<in>set post. \<not> is_day x) \<longrightarrow>
        fst (scan_lines (pre @ l # post) ([], [], [])) = l)
   \<and> (is_month l \<and> (\<forall>x\<in>set post. \<not> is_month x) \<longrightarrow>
        fst (snd (scan_lines (pre @ l # post) ([], [], []))) = l)
   \<and> (is_time l \<and> (\<forall>x\<in>set post. \<not> is_time x) \<longrightarrow>
        snd (snd (scan_lines (pre @ l # post) ([], [], []))) = l)"
  by (simp add: scan_lines_last last_match_split)

theorem scan_lines_last_match_witness:
  "is_day ''12'' \<and> list_all (\<lambda>x. \<not> is_day x) [''Marzo'', ''10:15'']
   \<and> fst (scan_lines ([''Oficina'', ''5'', ''Enero''] @ ''12'' # [''Marzo'', ''10:15''])
             ([], [], [])) = ''12''
   \<and> is_month ''Marzo'' \<and> list_all (\<lambda>x. \<not> is_month x) [''10:15'']
   \<and> fst (snd (scan_lines ([''Oficina'', ''5'', ''Enero'', ''12''] @ ''Marzo'' # [''10:15''])
             ([], [], []))) = ''Marzo''
   \<and> is_time ''10:15'' \<and> list_all (\<lambda>x. \<not> is_time x) []
   \<and> snd (snd (scan_lines ([''Oficina'', ''09:30'', ''Enero'', ''12''] @ ''10:15'' # [])
             ([], [], []))) = ''10:15''"
proof -
  have d: "is_day ''12'' \<and> (\<forall>x\<in>set [''Marzo'', ''10:15'']. \<not> is_day x)" by code_simp
  have m: "is_month ''Marzo'' \<and> (\<forall>x\<in>set [''10:15'']. \<not> is_month x)" by code_simp
  have t: "is_time ''10:15'' \<and> (\<forall>x\<in>set []. \<not> is_time x)" by code_simp
  from scan_lines_last_match[of _ "''12''" "[''Marzo'', ''10:15'']" "[''Oficina'', ''5'', ''Enero'']"] d
  have 1: "fst (scan_lines ([''Oficina'', ''5'', ''Enero''] @ ''12'' # [''Marzo'', ''10:15''])
             ([], [], [])) = ''12''" by blast
  from scan_lines_last_match[of _ "''Marzo''" "[''10:15'']" "[''Oficina'', ''5'', ''Enero'', ''12'']"] m
  have 2: "fst (snd (scan_lines ([''Oficina'', ''5'', ''Enero'', ''12''] @ ''Marzo'' # [''10:15''])
             ([], [], []))) = ''Marzo''" by blast
  from scan_lines_last_match[of _ "''10:15''" "[]" "[''Oficina'', ''09:30'', ''Enero'', ''12'']"] t
  have 3: "snd (snd (scan_lines ([''Oficina'', ''09:30'', ''Enero'', ''12''] @ ''10:15'' # [])
             ([], [], []))) = ''10:15''" by blast
  from d m t 1 2 3 show ?thesis by (simp add: list_all_iff)
qed

text \<open>
  C7. A card gives a record exactly when its first line (the office name) is not empty and
  a day line and a month line were found; for a card of the page, whose lines are never
  empty, that is: it holds the keyword, a day line and a month line. A time line is not
  required: the record carries the time found, and \<open>00:00\<close> when none was. No emitted
  record has an empty office name, date or time.
\<close>

theorem card_slot_requires_day_and_month:
  "(card_slot year lines \<noteq> None \<longleftrightarrow>
      lines \<noteq> [] \<and> hd lines \<noteq> [] \<and> (\<exists>l\<in>set lines. is_day l) \<and> (\<exists>l\<in>set lines. is_month l))
   \<and> (extract_card year text \<noteq> None \<longleftrightarrow>
        contains text ''Agendar'' \<and> (\<exists>l\<in>set (card_lines text). is_day l)
        \<and> (\<exists>l\<in>set (card_lines text). is_month l))
   \<and> (\<forall>r. card_slot year lines = Some r \<longrightarrow>
        nombreOficina r \<noteq> [] \<and> fechaDisponible r \<noteq> [] \<and> horaDisponible r \<noteq> []
        \<and> ((\<exists>l\<in>set lines. is_time l) \<longrightarrow> horaDisponible r = last_match is_time lines)
        \<and> (\<not> (\<exists>l\<in>set lines. is_time l) \<longrightarrow> horaDisponible r = ''00:00''))"
proof (intro conjI allI impI)
  have dm: "last_match is_day lines \<noteq> [] \<longleftrightarrow> (\<exists>l\<in>set lines. is_day l)"
    "last_match is_month lines \<noteq> [] \<longleftrightarrow> (\<exists>l\<in>set lines. is_month l)" for lines
    by (rule last_match_found, erule is_day_not_Nil)
       (rule last_match_found, erule is_month_not_Nil)
  have tm: "last_match is_time lines \<noteq> [] \<longleftrightarrow> (\<exists>l\<in>set lines. is_time l)"
    by (rule last_match_found) (erule is_time_not_Nil)
  show iff: "card_slot year lines \<noteq> None \<longleftrightarrow>
      lines \<noteq> [] \<and> hd lines \<noteq> [] \<and> (\<exists>l\<in>set lines. is_day l) \<and> (\<exists>l\<in>set lines. is_month l)"
    for lines
    by (simp add: card_slot_unfold dm)
  show "extract_card year text \<noteq> None \<longleftrightarrow>
        contains text ''Agendar'' \<and> (\<exists>l\<in>set (card_lines text). is_day l)
        \<and> (\<exists>l\<in>set (card_lines text). is_month l)"
  proof (cases "contains text ''Agendar''")
    case False
    then show ?thesis by (simp add: extract_card_def)
  next
    case True
    have "hd (card_lines text) \<noteq> []" if "card_lines text \<noteq> []"
      using that card_lines_not_Nil[of "text"] hd_in_set[of "card_lines text"] by metis
    moreover have "card_lines text \<noteq> []" if "\<exists>l\<in>set (card_lines text). is_day l"
      using that by auto
    ultimately show ?thesis using True iff[of "card_lines text"]
      by (auto simp: extract_card_def)
  qed
  fix r assume r: "card_slot year lines = Some r"
  then have c: "lines \<noteq> [] \<and> hd lines \<noteq> [] \<and> last_match is_day lines \<noteq> []
         \<and> last_match is_month lines \<noteq> []"
    by (simp add: card_slot_unfold split: if_splits)
  with r show "nombreOficina r \<noteq> []" "fechaDisponible r \<noteq> []" "horaDisponible r \<noteq> []"
    by (auto simp: card_slot_unfold split: if_splits)
  { assume "\<exists>l\<in>set lines. is_time l"
    with tm c r show "horaDisponible r = last_match is_time lines"
      by (auto simp: card_slot_unfold) }
  { assume "\<not> (\<exists>l\<in>set lines. is_time l)"
    with tm c r show "horaDisponible r = ''00:00''"
      by (auto simp: card_slot_unfold) }
qed


theorem card_slot_requires_day_and_month_witness:
  "[''Oficina Santiago'', ''Huerfanos 1570'', ''5'', ''Enero'', ''Agendar''] \<noteq> []
   \<and> hd [''Oficina Santiago'', ''Huerfanos 1570'', ''5'', ''Enero'', ''Agendar''] \<noteq> []
   \<and> (\<exists>l\<in>set [''Oficina Santiago'', ''Huerfanos 1570'', ''5'', ''Enero'', ''Agendar'']. is_day l)
   \<and> (\<exists>l\<in>set [''Oficina Santiago'', ''Huerfanos 1570'', ''5'', ''Enero'', ''Agendar'']. is_month l)
   \<and> \<not> (\<exists>l\<in>set [''Oficina Santiago'', ''Huerfanos 1570'', ''5'', ''Enero'', ''Agendar'']. is_time l)
   \<and> card_slot 2026 [''Oficina Santiago'', ''Huerfanos 1570'', ''5'', ''Enero'', ''Agendar''] \<noteq> None
   \<and> horaDisponible
        (the (card_slot 2026 [''Oficina Santiago'', ''Huerfanos 1570'', ''5'', ''Enero'', ''Agendar'']))
       = ''00:00''"
proof -
  let ?L = "[''Oficina Santiago'', ''Huerfanos 1570'', ''5'', ''Enero'', ''Agendar'']"
  have h: "?L \<noteq> []" "hd ?L \<noteq> []" by simp_all
  have d: "\<exists>l\<in>set ?L. is_day l" by code_simp
  have m: "\<exists>l\<in>set ?L. is_month l" by code_simp
  have t: "\<not> (\<exists>l\<in>set ?L. is_time l)" by code_simp
  from card_slot_requires_day_and_month[of 2026 ?L] h d m t
  have "card_slot 2026 ?L \<noteq> None"
    and "\<forall>r. card_slot 2026 ?L = Some r \<longrightarrow> horaDisponible r = ''00:00''"
    by blast+
  then have "horaDisponible (the (card_slot 2026 ?L)) = ''00:00''" by auto
  with \<open>card_slot 2026 ?L \<noteq> None\<close> h d m t show ?thesis by blast
qed

section \<open>Deduplication\<close>

lemma remove_duplicates_inv:
  "\<exists>kept. remove_duplicates seen acc batch = acc @ kept
     \<and> subseq kept batch
     \<and> distinct (map dedup_key kept)
     \<and> dedup_key ` set kept = dedup_key ` set batch - seen
     \<and> (\<forall>r\<in>set kept. find (\<lambda>s. dedup_key s = dedup_key r) batch = Some r)"
proof (induction batch arbitrary: seen acc)
  case Nil
  then show ?case by simp
next
  case (Cons s batch)
  show ?case
  proof (cases "dedup_key s \<in> seen")
    case True
    from Cons.IH[of seen acc] obtain kept where k:
      "remove_duplicates seen acc batch = acc @ kept" "subseq kept batch"
      "distinct (map dedup_key kept)" "dedup_key ` set kept = dedup_key ` set batch - seen"
      "\<forall>r\<in>set kept. find (\<lambda>s. dedup_key s = dedup_key r) batch = Some r"
      by blast
    from k(4) True have ne: "\<forall>r\<in>set kept. dedup_key s \<noteq> dedup_key r" by auto
    have "remove_duplicates seen acc (s # batch) = acc @ kept" using True k(1) by simp
    moreover have "subseq kept (s # batch)" using k(2) by (rule list_emb_Cons)
    moreover have "dedup_key ` set kept = dedup_key ` set (s # batch) - seen"
      using k(4) True by auto
    moreover have "\<forall>r\<in>set kept. find (\<lambda>x. dedup_key x = dedup_key r) (s # batch) = Some r"
      using k(5) ne by simp
    ultimately show ?thesis using k(3) by blast
  next
    case False
    from Cons.IH[of "insert (dedup_key s) seen" "acc @ [s]"] obtain kept where k:
      "remove_duplicates (insert (dedup_key s) seen) (acc @ [s]) batch = (acc @ [s]) @ kept"
      "subseq kept batch" "distinct (map dedup_key kept)"
      "dedup_key ` set kept = dedup_key ` set batch - insert (dedup_key s) seen"
      "\<forall>r\<in>set kept. find (\<lambda>s. dedup_key s = dedup_key r) batch = Some r"
      by blast
    from k(4) have ne: "\<forall>r\<in>set kept. dedup_key s \<noteq> dedup_key r" by auto
    have "remove_duplicates seen acc (s # batch) = acc @ (s # kept)" using False k(1) by simp
    moreover have "subseq (s # kept) (s # batch)" using k(2) by simp
    moreover have "distinct (map dedup_key (s # kept))" using k(3) ne by auto
    moreover have "dedup_key ` set (s # kept) = dedup_key ` set (s # batch) - seen"
      using k(4) False by auto
    moreover have "\<forall>r\<in>set (s # kept). find (\<lambda>x. dedup_key x = dedup_key r) (s # batch) = Some r"
      using k(5) ne by simp
    ultimately show ?thesis by blast
  qed
qed

lemma zfill_long: "2 \<le> length s \<Longrightarrow> zfill 2 s = s"
  by (simp add: zfill_def)

lemma raw_record_date:
  assumes "raw_record s"
  obtains d m y where "fechaDisponible s = d @ ''/'' @ m @ ''/'' @ y"
    "length d = 2" "length m = 2"
    "parse_slot_date (fechaDisponible s) = Inr (y @ ''-'' @ m @ ''-'' @ d)"
proof -
  from assms obtain d m y where sp: "str_split CHR ''/'' (fechaDisponible s) = [d, m, y]"
    and l: "length d = 2" "length m = 2"
    by (auto simp: raw_record_def split: list.splits)
  from str_split_join2[OF sp] have f: "fechaDisponible s = d @ ''/'' @ m @ ''/'' @ y" by simp
  from sp l have "parse_slot_date (fechaDisponible s) = Inr (y @ ''-'' @ m @ ''-'' @ d)"
    by (simp add: parse_slot_date_def zfill_long)
  with f l show ?thesis by (rule that)
qed

lemma parse_slot_date_inj:
  assumes "raw_record a" "raw_record b"
    and "parse_slot_date (fechaDisponible a) = parse_slot_date (fechaDisponible b)"
  shows "fechaDisponible a = fechaDisponible b"
proof -
  from assms(1) obtain d m y where a: "fechaDisponible a = d @ ''/'' @ m @ ''/'' @ y"
    "length d = 2" "length m = 2"
    "parse_slot_date (fechaDisponible a) = Inr (y @ ''-'' @ m @ ''-'' @ d)"
    by (rule raw_record_date)
  from assms(2) obtain d' m' y' where b: "fechaDisponible b = d' @ ''/'' @ m' @ ''/'' @ y'"
    "length d' = 2" "length m' = 2"
    "parse_slot_date (fechaDisponible b) = Inr (y' @ ''-'' @ m' @ ''-'' @ d')"
    by (rule raw_record_date)
  from assms(3) a(4) b(4) have e: "(y @ ''-'' @ m) @ (''-'' @ d) = (y' @ ''-'' @ m') @ (''-'' @ d')"
    by simp
  from a(2) b(2) have "length (''-'' @ d) = length (''-'' @ d')" by simp
  then have "((y @ ''-'' @ m) @ (''-'' @ d) = (y' @ ''-'' @ m') @ (''-'' @ d'))
      = (y @ ''-'' @ m = y' @ ''-'' @ m' \<and> ''-'' @ d = ''-'' @ d')"
    by (intro append_eq_append_conv disjI2)
  with e have 1: "y @ (''-'' @ m) = y' @ (''-'' @ m')" and 2: "d = d'" by simp_all
  from a(3) b(3) have "length (''-'' @ m) = length (''-'' @ m')" by simp
  then have "(y @ (''-'' @ m) = y' @ (''-'' @ m')) = (y = y' \<and> ''-'' @ m = ''-'' @ m')"
    by (intro append_eq_append_conv disjI2)
  with 1 have "y = y'" "m = m'" by simp_all
  with 2 a(1) b(1) show ?thesis by simp
qed

lemma append_sep_eq:
  "x \<notin> set xs \<Longrightarrow> x \<notin> set xs' \<Longrightarrow> xs @ x # ys = xs' @ x # ys' \<Longrightarrow> xs = xs' \<and> ys = ys'"
proof (induction xs arbitrary: xs')
  case Nil
  then show ?case by (cases xs') auto
next
  case (Cons a xs)
  then show ?case by (cases xs') auto
qed

lemma dedup_key_composite:
  assumes "raw_record a" "raw_record b"
  shows "dedup_key a = dedup_key b \<longleftrightarrow> composite_key a = composite_key b"
proof
  assume e: "dedup_key a = dedup_key b"
  from assms have u: "CHR ''_'' \<notin> set (fechaDisponible a)" "CHR ''_'' \<notin> set (horaDisponible a)"
    "CHR ''_'' \<notin> set (fechaDisponible b)" "CHR ''_'' \<notin> set (horaDisponible b)"
    by (simp_all add: raw_record_def)
  from e have "rev (dedup_key a) = rev (dedup_key b)" by simp
  then have r: "rev (horaDisponible a) @ CHR ''_'' # (rev (fechaDisponible a) @ CHR ''_'' # rev (nombreOficina a))
     = rev (horaDisponible b) @ CHR ''_'' # (rev (fechaDisponible b) @ CHR ''_'' # rev (nombreOficina b))"
    by (simp add: dedup_key_def)
  from u have "CHR ''_'' \<notin> set (rev (horaDisponible a))" "CHR ''_'' \<notin> set (rev (horaDisponible b))"
    by simp_all
  from append_sep_eq[OF this r]
  have h: "rev (horaDisponible a) = rev (horaDisponible b)"
    and r2: "rev (fechaDisponible a) @ CHR ''_'' # rev (nombreOficina a)
           = rev (fechaDisponible b) @ CHR ''_'' # rev (nombreOficina b)"
    by simp_all
  from u have "CHR ''_'' \<notin> set (rev (fechaDisponible a))" "CHR ''_'' \<notin> set (rev (fechaDisponible b))"
    by simp_all
  from append_sep_eq[OF this r2]
  have "rev (fechaDisponible a) = rev (fechaDisponible b)"
    "rev (nombreOficina a) = rev (nombreOficina b)"
    by simp_all
  with h show "composite_key a = composite_key b" by (simp add: composite_key_def)
next
  assume "composite_key a = composite_key b"
  then have "nombreOficina a = nombreOficina b" "horaDisponible a = horaDisponible b"
    "parse_slot_date (fechaDisponible a) = parse_slot_date (fechaDisponible b)"
    by (simp_all add: composite_key_def)
  with parse_slot_date_inj[OF assms] show "dedup_key a = dedup_key b"
    by (simp add: dedup_key_def)
qed


lemma subseq_subset: "subseq xs ys \<Longrightarrow> set xs \<subseteq> set ys"
proof
  fix x assume "subseq xs ys" "x \<in> set xs"
  then obtain y where "y \<in> set ys" "x = y" by (rule list_emb_set)
  then show "x \<in> set ys" by simp
qed

lemma remove_duplicates_composite:
  assumes raw: "\<forall>s\<in>set batch. raw_record s"
  shows "subseq (remove_duplicates {} [] batch) batch
     \<and> distinct (map composite_key (remove_duplicates {} [] batch))
     \<and> composite_key ` set (remove_duplicates {} [] batch) = composite_key ` set batch
     \<and> (\<forall>r\<in>set (remove_duplicates {} [] batch).
           find (\<lambda>s. composite_key s = composite_key r) batch = Some r)"
proof -
  from remove_duplicates_inv[of "{}" "[]" batch] obtain kept where k:
    "remove_duplicates {} [] batch = kept" "subseq kept batch"
    "distinct (map dedup_key kept)" "dedup_key ` set kept = dedup_key ` set batch"
    "\<forall>r\<in>set kept. find (\<lambda>s. dedup_key s = dedup_key r) batch = Some r"
    by auto
  from k(2) have sub: "set kept \<subseteq> set batch" by (rule subseq_subset)
  have eq: "dedup_key a = dedup_key b \<longleftrightarrow> composite_key a = composite_key b"
    if "a \<in> set batch" "b \<in> set batch" for a b
    using that raw by (simp add: dedup_key_composite)
  from k(3) have "distinct kept" "inj_on dedup_key (set kept)"
    by (simp_all add: distinct_map)
  moreover have "inj_on composite_key (set kept)"
  proof (rule inj_onI)
    fix x y assume xy: "x \<in> set kept" "y \<in> set kept" "composite_key x = composite_key y"
    with sub have "x \<in> set batch" "y \<in> set batch" by auto
    from eq[OF this] xy(3) have "dedup_key x = dedup_key y" by simp
    with \<open>inj_on dedup_key (set kept)\<close> xy(1,2) show "x = y" by (simp add: inj_on_def)
  qed
  ultimately have d: "distinct (map composite_key kept)"
    by (simp add: distinct_map)
  have i: "composite_key ` set kept = composite_key ` set batch"
  proof
    show "composite_key ` set kept \<subseteq> composite_key ` set batch" using sub by auto
    show "composite_key ` set batch \<subseteq> composite_key ` set kept"
    proof
      fix c assume "c \<in> composite_key ` set batch"
      then obtain x where x: "x \<in> set batch" "c = composite_key x" by auto
      then have "dedup_key x \<in> dedup_key ` set kept" using k(4) by auto
      then obtain y where y: "y \<in> set kept" "dedup_key y = dedup_key x" by auto
      with sub x(1) eq have "composite_key y = composite_key x" by auto
      with x(2) have "c = composite_key y" by simp
      then show "c \<in> composite_key ` set kept" using y(1) by (rule image_eqI)
    qed
  qed
  have f: "\<forall>r\<in>set kept. find (\<lambda>s. composite_key s = composite_key r) batch = Some r"
  proof
    fix r assume r: "r \<in> set kept"
    with sub have rb: "r \<in> set batch" by auto
    have "find (\<lambda>s. composite_key s = composite_key r) batch
        = find (\<lambda>s. dedup_key s = dedup_key r) batch"
      by (rule find_cong) (simp_all add: eq[OF _ rb])
    with k(5) r show "find (\<lambda>s. composite_key s = composite_key r) batch = Some r" by simp
  qed
  from k(1,2) d i f show ?thesis by simp
qed

section \<open>The records of the extraction script\<close>

lemma show_nat_digits: "list_all is_digit (show_nat n)"
proof (induction n rule: show_nat.induct)
  case (1 n)
  show ?case
  proof (cases "n < 10")
    case True
    then show ?thesis by (subst show_nat.simps) (simp add: is_digit_digit_char)
  next
    case False
    with 1 show ?thesis by (subst show_nat.simps) (simp add: is_digit_digit_char)
  qed
qed

lemma digits_plain:
  "list_all is_digit s \<Longrightarrow> CHR ''/'' \<notin> set s \<and> CHR ''_'' \<notin> set s"
  by (induction s) (auto dest: is_digit_plain)

lemma padStart_day:
  "digits_1_2 l \<Longrightarrow> length (padStart 2 l) = 2 \<and> list_all is_digit (padStart 2 l)"
  by (cases l rule: digits_1_2.cases) (simp_all add: padStart_def is_digit_def)

lemma month_number_shape:
  "length (case map_of monthMap k of Some n \<Rightarrow> n | None \<Rightarrow> ''01'') = 2
   \<and> CHR ''/'' \<notin> set (case map_of monthMap k of Some n \<Rightarrow> n | None \<Rightarrow> ''01'')
   \<and> CHR ''_'' \<notin> set (case map_of monthMap k of Some n \<Rightarrow> n | None \<Rightarrow> ''01'')"
proof (cases "map_of monthMap k")
  case None
  then show ?thesis by simp
next
  case (Some n)
  then have "(k, n) \<in> set monthMap" by (rule map_of_SomeD)
  then have "n \<in> snd ` set monthMap" by force
  then have "length n = 2 \<and> CHR ''/'' \<notin> set n \<and> CHR ''_'' \<notin> set n"
    by (auto simp: monthMap_def)
  with Some show ?thesis by simp
qed

lemma is_time_plain: "is_time l \<Longrightarrow> CHR ''_'' \<notin> set l"
  by (cases l rule: is_time.cases) (auto dest: is_digit_plain)

lemma card_slot_raw_record:
  assumes "card_slot year lines = Some s"
  shows "raw_record s"
proof -
  let ?d = "padStart 2 (last_match is_day lines)"
  let ?m = "case map_of monthMap (toLowerCase (last_match is_month lines)) of
              Some n \<Rightarrow> n | None \<Rightarrow> ''01''"
  let ?t = "last_match is_time lines"
  from assms have c: "last_match is_day lines \<noteq> []"
    and f: "fechaDisponible s = ?d @ ''/'' @ ?m @ ''/'' @ show_nat year"
    and h: "horaDisponible s = (if ?t \<noteq> [] then ?t else ''00:00'')"
    by (auto simp: card_slot_unfold split: if_splits)
  from last_match_in[OF c] have "digits_1_2 (last_match is_day lines)"
    by (simp add: is_day_def)
  from padStart_day[OF this] have d: "length ?d = 2" "CHR ''/'' \<notin> set ?d" "CHR ''_'' \<notin> set ?d"
    using digits_plain[of ?d] by simp_all
  from month_number_shape have m: "length ?m = 2" "CHR ''/'' \<notin> set ?m" "CHR ''_'' \<notin> set ?m"
    by blast+
  from show_nat_digits[of year] digits_plain[of "show_nat year"]
  have y: "CHR ''/'' \<notin> set (show_nat year)" "CHR ''_'' \<notin> set (show_nat year)" by simp_all
  from str_split_three[OF d(2) m(2) y(1)] f
  have sp: "str_split CHR ''/'' (fechaDisponible s) = [?d, ?m, show_nat year]" by simp
  have u: "CHR ''_'' \<notin> set (fechaDisponible s)"
    using f d(3) m(3) y(2) by simp
  have "CHR ''_'' \<notin> set (horaDisponible s)"
  proof (cases "?t = []")
    case True
    with h show ?thesis by simp
  next
    case False
    from last_match_in[OF this] have "is_time ?t" by simp
    from is_time_plain[OF this] h False show ?thesis by simp
  qed
  with sp u d(1) m(1) show ?thesis by (simp add: raw_record_def)
qed

lemma extract_card_raw_record: "extract_card year t = Some s \<Longrightarrow> raw_record s"
  by (auto simp: extract_card_def intro: card_slot_raw_record split: if_splits)

lemma extract_slots_raw_record: "\<forall>s\<in>set (extract_slots year texts). raw_record s"
  unfolding extract_slots_def
  by (induction texts) (auto dest: extract_card_raw_record split: option.splits)


text \<open>
  C6. The loop keys a record by office name, date text and time joined by underscores.
  On raw slot records (a date of two characters, two characters and a year between
  separators, no underscore in date or time: the records the extraction script builds) two
  records have the same key exactly when they agree in office name, ISO date and time. So
  the records kept are a subsequence of the batch, with one record per composite key, every
  key of the batch among them, and each kept record the first of the batch with its key.
  Two records with the same composite key collapse to the first, whatever their office
  identifiers.
\<close>

theorem remove_duplicates_first_seen:
  "((\<forall>s\<in>set batch. raw_record s) \<longrightarrow>
      subseq (remove_duplicates {} [] batch) batch
      \<and> distinct (map composite_key (remove_duplicates {} [] batch))
      \<and> composite_key ` set (remove_duplicates {} [] batch) = composite_key ` set batch
      \<and> (\<forall>r\<in>set (remove_duplicates {} [] batch).
            find (\<lambda>s. composite_key s = composite_key r) batch = Some r))
   \<and> (raw_record a \<and> raw_record b \<and> composite_key a = composite_key b \<longrightarrow>
        remove_duplicates {} [] [a, b] = [a])
   \<and> remove_duplicates {} [] [a, a\<lparr>idOficina := i\<rparr>] = [a]
   \<and> (\<forall>s\<in>set (extract_slots year texts). raw_record s)"
proof (intro conjI impI)
  assume raw: "\<forall>s\<in>set batch. raw_record s"
  from remove_duplicates_composite[OF raw]
  show "subseq (remove_duplicates {} [] batch) batch"
    "distinct (map composite_key (remove_duplicates {} [] batch))"
    "composite_key ` set (remove_duplicates {} [] batch) = composite_key ` set batch"
    "\<forall>r\<in>set (remove_duplicates {} [] batch).
            find (\<lambda>s. composite_key s = composite_key r) batch = Some r"
    by blast+
next
  assume "raw_record a \<and> raw_record b \<and> composite_key a = composite_key b"
  then have "dedup_key a = dedup_key b" by (simp add: dedup_key_composite)
  then show "remove_duplicates {} [] [a, b] = [a]" by simp
next
  show "remove_duplicates {} [] [a, a\<lparr>idOficina := i\<rparr>] = [a]"
    by (simp add: dedup_key_def)
  show "\<forall>s\<in>set (extract_slots year texts). raw_record s"
    by (rule extract_slots_raw_record)
qed

theorem remove_duplicates_first_seen_witness:
  "list_all raw_record
     [slot_of ''05/03/2026'' ''10:00'' ''A'', slot_of ''04/03/2026'' ''09:00'' ''B'',
      (slot_of ''05/03/2026'' ''10:00'' ''A'')\<lparr>idOficina := ''7''\<rparr>]
   \<and> remove_duplicates {} []
        [slot_of ''05/03/2026'' ''10:00'' ''A'', slot_of ''04/03/2026'' ''09:00'' ''B'',
         (slot_of ''05/03/2026'' ''10:00'' ''A'')\<lparr>idOficina := ''7''\<rparr>]
      = [slot_of ''05/03/2026'' ''10:00'' ''A'', slot_of ''04/03/2026'' ''09:00'' ''B'']
   \<and> distinct (map composite_key (remove_duplicates {} []
        [slot_of ''05/03/2026'' ''10:00'' ''A'', slot_of ''04/03/2026'' ''09:00'' ''B'',
         (slot_of ''05/03/2026'' ''10:00'' ''A'')\<lparr>idOficina := ''7''\<rparr>]))
   \<and> raw_record (slot_of ''05/03/2026'' ''10:00'' ''A'')
   \<and> raw_record ((slot_of ''05/03/2026'' ''10:00'' ''A'')\<lparr>idOficina := ''7''\<rparr>)
   \<and> composite_key (slot_of ''05/03/2026'' ''10:00'' ''A'')
       = composite_key ((slot_of ''05/03/2026'' ''10:00'' ''A'')\<lparr>idOficina := ''7''\<rparr>)
   \<and> remove_duplicates {} []
        [slot_of ''05/03/2026'' ''10:00'' ''A'',
         (slot_of ''05/03/2026'' ''10:00'' ''A'')\<lparr>idOficina := ''7''\<rparr>]
      = [slot_of ''05/03/2026'' ''10:00'' ''A'']"
proof -
  let ?a = "slot_of ''05/03/2026'' ''10:00'' ''A''"
  let ?b = "slot_of ''04/03/2026'' ''09:00'' ''B''"
  let ?c = "(slot_of ''05/03/2026'' ''10:00'' ''A'')\<lparr>idOficina := ''7''\<rparr>"
  have ra: "raw_record ?a" and rb: "raw_record ?b" and rc: "raw_record ?c"
    by (simp_all add: raw_record_def slot_of_def)
  then have h: "\<forall>s\<in>set [?a, ?b, ?c]. raw_record s" by simp
  have e: "composite_key ?a = composite_key ?c"
    by (simp add: composite_key_def slot_of_def)
  have v: "remove_duplicates {} [] [?a, ?b, ?c] = [?a, ?b]"
    by (simp add: dedup_key_def slot_of_def)
  from remove_duplicates_first_seen[of "[?a, ?b, ?c]"] h
  have "distinct (map composite_key (remove_duplicates {} [] [?a, ?b, ?c]))" by blast
  moreover from remove_duplicates_first_seen[of _ ?a ?c] ra rc e
  have "remove_duplicates {} [] [?a, ?c] = [?a]" by blast
  moreover have "list_all raw_record [?a, ?b, ?c]" using ra rb rc by simp
  ultimately show ?thesis using v ra rc e by blast
qed

section \<open>Browser calls and the history\<close>

lemma only_calls_refl: "only_calls P c c"
  unfolding only_calls_def by (rule exI[of _ "[]"]) simp

lemma only_calls_trans: "only_calls P c c1 \<Longrightarrow> only_calls P c1 c2 \<Longrightarrow> only_calls P c c2"
proof -
  assume "only_calls P c c1" "only_calls P c1 c2"
  then obtain n1 n2 where n: "c1 = c\<lparr>log := log c @ n1\<rparr>" "list_all P n1"
    "c2 = c1\<lparr>log := log c1 @ n2\<rparr>" "list_all P n2"
    unfolding only_calls_def by blast
  then have "c2 = c\<lparr>log := log c @ (n1 @ n2)\<rparr>" "list_all P (n1 @ n2)" by simp_all
  then show ?thesis unfolding only_calls_def by blast
qed

lemma only_calls_page_call:
  "P a \<Longrightarrow> page_call b a c = (ok, c') \<Longrightarrow> only_calls P c c'"
proof (cases "page_open c")
  case True
  assume "P a" "page_call b a c = (ok, c')"
  with True have "c' = c\<lparr>log := log c @ [a]\<rparr>" "list_all P [a]"
    by (auto simp: page_call_def)
  then show ?thesis unfolding only_calls_def by blast
next
  case False
  assume "page_call b a c = (ok, c')"
  with False have "c' = c" by (simp add: page_call_def)
  then show ?thesis by (simp add: only_calls_refl)
qed


lemma click_first_calls:
  "click_first b sels c = (ok, c') \<Longrightarrow> only_calls (\<lambda>a. \<not> region_or_extraction a) c c'"
proof (induction sels arbitrary: c)
  case Nil
  then show ?case by (simp add: only_calls_refl)
next
  case (Cons sel sels)
  obtain ok1 c1 where p: "page_call b (Click sel) c = (ok1, c1)" by force
  then have 1: "only_calls (\<lambda>a. \<not> region_or_extraction a) c c1"
    by (rule only_calls_page_call[rotated]) simp
  show ?case
  proof (cases ok1)
    case True
    with p Cons.prems have "c' = c1" by simp
    with 1 show ?thesis by simp
  next
    case False
    with p Cons.prems have "click_first b sels c1 = (ok, c')" by simp
    from Cons.IH[OF this] 1 show ?thesis by (blast intro: only_calls_trans)
  qed
qed

lemma click_button_calls:
  "click_button b name btns c = (r, c') \<Longrightarrow> only_calls (\<lambda>a. \<not> region_or_extraction a) c c'"
proof (induction btns arbitrary: c)
  case Nil
  then show ?case by (simp add: only_calls_refl)
next
  case (Cons btn btns)
  obtain ok1 c1 where p: "page_call b (InnerText btn) c = (ok1, c1)" by force
  then have 1: "only_calls (\<lambda>a. \<not> region_or_extraction a) c c1"
    by (rule only_calls_page_call[rotated]) simp
  obtain ok2 c2 where q: "page_call b (ClickElement btn) c1 = (ok2, c2)" by force
  then have 2: "only_calls (\<lambda>a. \<not> region_or_extraction a) c1 c2"
    by (rule only_calls_page_call[rotated]) simp
  from 1 2 have 12: "only_calls (\<lambda>a. \<not> region_or_extraction a) c c2"
    by (rule only_calls_trans)
  show ?case
  proof (cases "ok1 \<and> split_ws [] name \<noteq> []
                 \<and> \<not> contains (inner_text b (log c) btn) (hd (split_ws [] name))")
    case True
    with p Cons.prems have "click_button b name btns c1 = (r, c')"
      by (auto split: list.splits)
    from Cons.IH[OF this] 1 show ?thesis by (blast intro: only_calls_trans)
  next
    case False
    with p q Cons.prems have "c' = c1 \<or> c' = c2"
      by (auto split: list.splits if_splits bool.splits)
    with 1 12 show ?thesis by blast
  qed
qed

lemma click_procedure_calls:
  assumes "click_procedure b name c = (r, c')"
  shows "only_calls (\<lambda>a. \<not> region_or_extraction a) c c'"
proof -
  obtain ok1 c1 where f: "click_first b (procedure_selectors name) c = (ok1, c1)" by force
  from click_first_calls[OF f] have 1: "only_calls (\<lambda>a. \<not> region_or_extraction a) c c1" .
  obtain ok2 c2 where q: "page_call b (QuerySelectorAll ''button.btn'') c1 = (ok2, c2)" by force
  then have 2: "only_calls (\<lambda>a. \<not> region_or_extraction a) c1 c2"
    by (rule only_calls_page_call[rotated]) simp
  show ?thesis
  proof (cases ok1)
    case True
    with f assms have "c' = c1" by (simp add: click_procedure_def)
    with 1 show ?thesis by simp
  next
    case False
    show ?thesis
    proof (cases ok2)
      case True
      with False f q assms
      have "click_button b name [0 ..< element_count b (log c1) ''button.btn''] c2 = (r, c')"
        by (simp add: click_procedure_def)
      from click_button_calls[OF this] 1 2 show ?thesis by (blast intro: only_calls_trans)
    next
      case ok2: False
      with False f q assms have "c' = c2" by (simp add: click_procedure_def)
      with 1 2 show ?thesis by (blast intro: only_calls_trans)
    qed
  qed
qed

lemma select_procedure_cases:
  assumes "is_authenticated c" "click_procedure b (procedure_name pid) c = (r, c1)"
  shows "select_procedure b pid c =
           (if r = Inr True
            then (Inr (fst (page_call b WaitForLoadState c1)), snd (page_call b WaitForLoadState c1))
            else (Inr False, c1))"
  using assms
  by (auto simp: select_procedure_def split: sum.splits bool.splits prod.splits)

lemma click_first_all_raise:
  "\<forall>h sel. raises b h (Click sel) \<Longrightarrow> fst (click_first b sels c) = False"
proof (induction sels arbitrary: c)
  case Nil
  then show ?case by simp
next
  case (Cons sel sels)
  then show ?case by (cases "page_open c") (simp_all add: page_call_def)
qed

lemma click_button_no_text:
  assumes "split_ws [] name = w # ws" "\<forall>h i. \<not> contains (inner_text b h i) w"
  shows "fst (click_button b name btns c) \<noteq> Inr True"
proof (induction btns arbitrary: c)
  case Nil
  then show ?case by simp
next
  case (Cons btn btns)
  with assms show ?case
    by (cases "page_call b (InnerText btn) c") (auto split: bool.splits)
qed

lemma click_procedure_no_match:
  assumes "\<forall>h sel. raises b h (Click sel)"
    and "split_ws [] name = w # ws" "\<forall>h i. \<not> contains (inner_text b h i) w"
  shows "fst (click_procedure b name c) \<noteq> Inr True"
proof -
  obtain ok1 c1 where f: "click_first b (procedure_selectors name) c = (ok1, c1)" by force
  with click_first_all_raise[OF assms(1), of "procedure_selectors name" c]
  have ok1: "\<not> ok1" by simp
  obtain ok2 c2 where q: "page_call b (QuerySelectorAll ''button.btn'') c1 = (ok2, c2)" by force
  show ?thesis
    using f ok1 q click_button_no_text[OF assms(2,3)]
    by (cases ok2) (simp_all add: click_procedure_def)
qed

text \<open>
  C9. Invoked on a client that is not authenticated, \<open>select_procedure\<close> and
  \<open>get_slots_by_region\<close> raise \<open>ValueError("Must login first")\<close>, an exception and not
  a boolean, and leave the client as it was: no browser call was attempted.
\<close>

theorem unauthenticated_raises_before_any_call:
  "\<not> is_authenticated c \<longrightarrow>
     select_procedure b pid c = (Inl ValueError_must_login, c)
     \<and> get_slots_by_region b pid rid c = (Inl ValueError_must_login, c)"
  by (simp add: select_procedure_def get_slots_by_region_def)

theorem unauthenticated_raises_before_any_call_witness:
  "\<not> is_authenticated new_client
   \<and> select_procedure other_buttons_browser ''6'' new_client = (Inl ValueError_must_login, new_client)
   \<and> get_slots_by_region other_buttons_browser ''6'' ''13'' new_client
       = (Inl ValueError_must_login, new_client)
   \<and> log new_client = []"
proof -
  have h: "\<not> is_authenticated new_client" by (simp add: new_client_def)
  from unauthenticated_raises_before_any_call[of new_client other_buttons_browser "''6''" "''13''"] h
  show ?thesis by (simp add: new_client_def)
qed

text \<open>
  C8. On an authenticated client \<open>select_procedure\<close> never raises, whatever the
  procedure id and whatever the browser does. When neither the selectors nor the scan of
  the \<open>button.btn\<close> elements ends with a click (no match, or an exception on the way),
  it returns False and \<open>get_slots_by_region\<close> returns the empty list in the state
  \<open>select_procedure\<close> left: the only browser calls made are those of the procedure
  selection, none of region selection or extraction. That is the case, for one, when every
  click on a selector raises and no button text holds the first word of the procedure name.
\<close>

theorem select_procedure_no_match:
  "(is_authenticated c \<longrightarrow> (\<exists>r c'. select_procedure b pid c = (Inr r, c')))
   \<and> (is_authenticated c \<and> fst (click_procedure b (procedure_name pid) c) \<noteq> Inr True \<longrightarrow>
        (\<exists>c'. select_procedure b pid c = (Inr False, c')
           \<and> get_slots_by_region b pid rid c = (Inr [], c')
           \<and> only_calls (\<lambda>a. \<not> region_or_extraction a) c c'))
   \<and> ((\<forall>h sel. raises b h (Click sel))
        \<and> (\<exists>w ws. split_ws [] (procedure_name pid) = w # ws
              \<and> (\<forall>h i. \<not> contains (inner_text b h i) w)) \<longrightarrow>
        fst (click_procedure b (procedure_name pid) c) \<noteq> Inr True)"
proof (intro conjI impI)
  obtain r c1 where cp: "click_procedure b (procedure_name pid) c = (r, c1)" by force
  { assume "is_authenticated c"
    from select_procedure_cases[OF this cp]
    show "\<exists>r c'. select_procedure b pid c = (Inr r, c')" by (cases "r = Inr True") auto }
  { assume a: "is_authenticated c \<and> fst (click_procedure b (procedure_name pid) c) \<noteq> Inr True"
    with cp have "r \<noteq> Inr True" by simp
    with select_procedure_cases[OF _ cp] a
    have s: "select_procedure b pid c = (Inr False, c1)" by simp
    with a have "get_slots_by_region b pid rid c = (Inr [], c1)"
      by (simp add: get_slots_by_region_def)
    with s click_procedure_calls[OF cp]
    show "\<exists>c'. select_procedure b pid c = (Inr False, c')
           \<and> get_slots_by_region b pid rid c = (Inr [], c')
           \<and> only_calls (\<lambda>a. \<not> region_or_extraction a) c c'" by blast }
  { assume "(\<forall>h sel. raises b h (Click sel))
        \<and> (\<exists>w ws. split_ws [] (procedure_name pid) = w # ws
              \<and> (\<forall>h i. \<not> contains (inner_text b h i) w))"
    then show "fst (click_procedure b (procedure_name pid) c) \<noteq> Inr True"
      using click_procedure_no_match by blast }
qed

theorem select_procedure_no_match_witness:
  "is_authenticated logged_in_client
   \<and> fst (click_procedure other_buttons_browser (procedure_name ''6'') logged_in_client) \<noteq> Inr True
   \<and> fst (select_procedure other_buttons_browser ''6'' logged_in_client) = Inr False
   \<and> fst (get_slots_by_region other_buttons_browser ''6'' ''13'' logged_in_client) = Inr []
   \<and> list_all (\<lambda>a. \<not> region_or_extraction a)
        (log (snd (get_slots_by_region other_buttons_browser ''6'' ''13'' logged_in_client)))"
proof -
  have a: "is_authenticated logged_in_client" by (simp add: logged_in_client_def)
  have n: "fst (click_procedure other_buttons_browser (procedure_name ''6'') logged_in_client)
             \<noteq> Inr True"
    by code_simp
  from select_procedure_no_match[of logged_in_client other_buttons_browser "''6''" "''13''"] a n
  obtain c' where c': "select_procedure other_buttons_browser ''6'' logged_in_client = (Inr False, c')"
    "get_slots_by_region other_buttons_browser ''6'' ''13'' logged_in_client = (Inr [], c')"
    "only_calls (\<lambda>a. \<not> region_or_extraction a) logged_in_client c'"
    by blast
  from c'(3) have "list_all (\<lambda>a. \<not> region_or_extraction a) (log c')"
    by (auto simp: only_calls_def logged_in_client_def new_client_def)
  with a n c'(1,2) show ?thesis by simp
qed

section \<open>Login\<close>









text \<open>
  The construction of the config and of the client, and the start of the browser, are
  inside the \<open>try\<close>: a rut without dash, an exception of \<open>validate\<close> and a browser that
  does not start all end in status 500.
\<close>

lemma get_slots_not_started:
  "CHR ''-'' \<notin> set (srcei_rut st) \<or> validate_raises \<or> raises b [] StartBrowser \<Longrightarrow>
   get_slots b validate_raises st pid rid = Inl (HTTPException 500)"
  by (auto simp: get_slots_def rut_must_contain_dash_def init_client_def start_browser_def)




end
